theory Spec2Isabelle
  imports Complex_Main "HOL-Library.Sublist"
begin

section \<open>Strings and numbers of the platform\<close>

text \<open>
  A JavaScript string is a sequence of code units; it is modelled as a \<open>string\<close>, one
  \<open>char\<close> standing for one code unit. Numbers that the program only uses as integers
  (offsets, sizes, counters) are \<open>int\<close> or \<open>nat\<close>.
\<close>

definition js_slice :: "'a list \<Rightarrow> int \<Rightarrow> int \<Rightarrow> 'a list" where
  \<comment> \<open>\<open>String.prototype.slice(from, to)\<close>: a negative index counts from the end, both
      indices are clamped to the string, an empty range gives the empty string.\<close>
  "js_slice s b e =
     (let n = int (length s);
          from = (if b < 0 then max (n + b) 0 else min b n);
          to = (if e < 0 then max (n + e) 0 else min e n)
      in take (nat (to - from)) (drop (nat from) s))"

text \<open>A thrown \<open>Error\<close> with its message; a function that may throw returns \<open>error + 'a\<close>.\<close>

datatype error = Error string

fun message :: "error \<Rightarrow> string" where
  "message (Error m) = m"

section \<open>Configuration\<close>

record indexing_config =
  vectorSize :: nat
  maxFileSize :: nat
  maxChunkSize :: int
  overlapSize :: int

definition INDEXING_CONFIG :: indexing_config where
  "INDEXING_CONFIG =
     \<lparr> vectorSize = 1536, maxFileSize = 1024 * 1024, maxChunkSize = 1000, overlapSize = 200 \<rparr>"

section \<open>Chunker\<close>

text \<open>
  The \<open>while\<close> loop of \<open>splitIntoChunks\<close>, with the loop variables \<open>start\<close> and
  \<open>chunks\<close> as arguments, on arrays of any length. The loop need not meet one of its two
  exits, so the result is an option: \<open>None\<close> is "no exit is ever met". The bound that the
  engine puts on the length of an array is left out here; it is in
  \<open>splitIntoChunks_limited\<close> below, which returns the same chunks whenever they fit.
\<close>

partial_function (option) splitIntoChunks_loop ::
  "string \<Rightarrow> int \<Rightarrow> int \<Rightarrow> int \<Rightarrow> string list \<Rightarrow> string list option" where
  "splitIntoChunks_loop text maxChunkSize' overlapSize' start chunks =
     (if start < int (length text) then
        (if min (start + maxChunkSize') (int (length text)) = int (length text)
         then Some (chunks @ [js_slice text start (min (start + maxChunkSize') (int (length text)))])
         else splitIntoChunks_loop text maxChunkSize' overlapSize'
                (min (start + maxChunkSize') (int (length text)) - overlapSize')
                (chunks @ [js_slice text start (min (start + maxChunkSize') (int (length text)))]))
      else Some chunks)"

declare splitIntoChunks_loop.simps [code]

definition splitIntoChunks :: "string \<Rightarrow> int \<Rightarrow> int \<Rightarrow> string list option" where
  "splitIntoChunks text maxChunkSize' overlapSize' =
     splitIntoChunks_loop text maxChunkSize' overlapSize' 0 []"

text \<open>
  The same loop on an engine whose arrays hold at most \<open>limit\<close> elements:
  \<open>chunks.push\<close> on a full array throws \<open>RangeError\<close>. Every iteration pushes one chunk, so
  this loop always ends.
\<close>

function splitIntoChunks_limited_loop ::
  "nat \<Rightarrow> string \<Rightarrow> int \<Rightarrow> int \<Rightarrow> int \<Rightarrow> string list \<Rightarrow> error + string list" where
  "splitIntoChunks_limited_loop limit text maxChunkSize' overlapSize' start chunks =
     (if start < int (length text) then
        (if limit \<le> length chunks then Inl (Error ''Invalid array length'')
         else if min (start + maxChunkSize') (int (length text)) = int (length text)
         then Inr (chunks @ [js_slice text start (min (start + maxChunkSize') (int (length text)))])
         else splitIntoChunks_limited_loop limit text maxChunkSize' overlapSize'
                (min (start + maxChunkSize') (int (length text)) - overlapSize')
                (chunks @ [js_slice text start (min (start + maxChunkSize') (int (length text)))]))
      else Inr chunks)"
  by pat_completeness auto
termination
  by (relation "measure (\<lambda>(limit, text, w, ov, start, chunks). limit - length chunks)") auto

declare splitIntoChunks_limited_loop.simps [simp del]

definition splitIntoChunks_limited :: "nat \<Rightarrow> string \<Rightarrow> int \<Rightarrow> int \<Rightarrow> error + string list" where
  "splitIntoChunks_limited limit text maxChunkSize' overlapSize' =
     splitIntoChunks_limited_loop limit text maxChunkSize' overlapSize' 0 []"

text \<open>
  The number of chunks as the specification states it: none for the empty text, one for a
  text that fits the window, and otherwise the ceiling of
  \<open>(len - overlapSize) / (windowSize - overlapSize)\<close>.
\<close>

definition chunk_count :: "nat \<Rightarrow> int \<Rightarrow> int \<Rightarrow> nat" where
  "chunk_count n w ov =
     (if n = 0 then 0
      else if int n \<le> w then 1
      else nat \<lceil>(of_int (int n - ov) :: real) / of_int (w - ov)\<rceil>)"

text \<open>The windows of the text in closed form: window \<open>k\<close> starts at \<open>k * (w - ov)\<close>.\<close>

definition windows :: "string \<Rightarrow> int \<Rightarrow> int \<Rightarrow> string list" where
  "windows text w ov =
     map (\<lambda>k. take (nat w) (drop (k * nat (w - ov)) text)) [0..<chunk_count (length text) w ov]"

text \<open>The number of windows still to come when \<open>L\<close> characters remain, by integer division.\<close>

definition remaining_chunks :: "nat \<Rightarrow> int \<Rightarrow> int \<Rightarrow> nat" where
  "remaining_chunks L w ov =
     (if int L \<le> w then 1 else nat ((int L - ov + (w - ov) - 1) div (w - ov)))"

section \<open>Chunk identifier\<close>

text \<open>
  The decimal rendering of a number in a template literal. \<open>startLine\<close> is always a
  positive integer in this program, so the rendering is given for naturals.
\<close>

definition digit_char :: "nat \<Rightarrow> char" where
  "digit_char d = ''0123456789'' ! d"

fun string_of_nat :: "nat \<Rightarrow> string" where
  "string_of_nat n =
     (if n < 10 then [digit_char n] else string_of_nat (n div 10) @ [digit_char (n mod 10)])"

declare string_of_nat.simps [simp del]

text \<open>The string that is hashed: the template \<open>${filePath}:${startLine}:${content}\<close>.\<close>

definition chunkIdInput :: "string \<Rightarrow> nat \<Rightarrow> string \<Rightarrow> string" where
  "chunkIdInput filePath startLine content =
     filePath @ '':'' @ string_of_nat startLine @ '':'' @ content"

text \<open>
  \<open>generateChunkId\<close>; the MD5 digest in hexadecimal is the library's, here the parameter
  \<open>md5_hex\<close>.
\<close>

definition generateChunkId :: "(string \<Rightarrow> string) \<Rightarrow> string \<Rightarrow> nat \<Rightarrow> string \<Rightarrow> string" where
  "generateChunkId md5_hex filePath startLine content =
     md5_hex (chunkIdInput filePath startLine content)"

text \<open>Reading a decimal rendering back.\<close>

definition digit_val :: "char \<Rightarrow> nat" where
  "digit_val c = of_char c - 48"

definition nat_of_digits :: "string \<Rightarrow> nat" where
  "nat_of_digits s = foldl (\<lambda>a c. 10 * a + digit_val c) 0 s"

section \<open>Truthiness, paths and the file system\<close>

text \<open>Truthiness of a value that is a string, \<open>null\<close> or \<open>undefined\<close>.\<close>

fun truthy :: "string option \<Rightarrow> bool" where
  "truthy None = False"
| "truthy (Some s) = (s \<noteq> [])"


definition startsWith :: "string \<Rightarrow> string \<Rightarrow> bool" where
  "startsWith s p = prefix p s"

fun str_includes :: "string \<Rightarrow> string \<Rightarrow> bool" where
  \<comment> \<open>\<open>String.prototype.includes\<close>\<close>
  "str_includes [] sub = (sub = [])"
| "str_includes (c # s) sub = (prefix sub (c # s) \<or> str_includes s sub)"

definition nl :: string where
  "nl = [CHR 0x0A]"

fun join :: "string \<Rightarrow> string list \<Rightarrow> string" where
  \<comment> \<open>\<open>Array.prototype.join\<close>\<close>
  "join sep [] = []"
| "join sep [x] = x"
| "join sep (x # y # ys) = x @ sep @ join sep (y # ys)"

text \<open>
  The functions of Node's \<open>path\<close> module, for normalised POSIX paths built from a root
  and entry names (the only paths this program builds).
\<close>

definition path_join :: "string \<Rightarrow> string \<Rightarrow> string" where
  "path_join dir name = dir @ ''/'' @ name"

definition path_relative :: "string \<Rightarrow> string \<Rightarrow> string" where
  "path_relative rootPath file =
     (if prefix (rootPath @ ''/'') file then drop (length rootPath + 1) file else file)"

definition basename :: "string \<Rightarrow> string" where
  "basename p = rev (takeWhile (\<lambda>c. c \<noteq> CHR ''/'') (rev p))"

definition extname :: "string \<Rightarrow> string" where
  \<comment> \<open>from the last dot of the base name; empty when there is no dot, when the only dot
      leads the name, and for \<open>..\<close>\<close>
  "extname p =
     (let b = basename p;
          e = rev (takeWhile (\<lambda>c. c \<noteq> CHR ''.'') (rev b))
      in if CHR ''.'' \<notin> set b \<or> b = ''..'' \<or> length b = Suc (length e) then []
         else ''.'' @ e)"

definition CODE_EXTENSIONS :: "string list" where
  "CODE_EXTENSIONS =
     [''.js'', ''.ts'', ''.jsx'', ''.tsx'', ''.py'', ''.java'', ''.cpp'', ''.c'', ''.cs'', ''.php'',
      ''.rb'', ''.go'', ''.rs'', ''.swift'', ''.kt'', ''.scala'', ''.html'', ''.css'', ''.scss'',
      ''.json'', ''.yaml'', ''.yml'', ''.toml'', ''.md'', ''.txt'', ''.sh'', ''.bash'', ''.zsh'']"

text \<open>
  A snapshot of the file system below a path. A regular file has the size \<open>stat\<close> reports
  and the text \<open>readFile\<close> returns (\<open>None\<close>: the read fails); a directory has the entries
  \<open>readdir\<close> returns (\<open>None\<close>: the listing fails); \<open>Other\<close> is an entry that is neither a
  file nor a directory; \<open>Missing\<close> is a path whose \<open>stat\<close> fails.
\<close>

datatype fsnode =
    File nat "string option"
  | Dir "(string \<times> fsnode) list option"
  | Other nat
  | Missing

record stats =
  isDirectory :: bool
  isFile :: bool
  st_size :: nat

fun stat :: "fsnode \<Rightarrow> stats option" where
  "stat (File n c) = Some \<lparr> isDirectory = False, isFile = True, st_size = n \<rparr>"
| "stat (Dir es) = Some \<lparr> isDirectory = True, isFile = False, st_size = 0 \<rparr>"
| "stat (Other n) = Some \<lparr> isDirectory = False, isFile = False, st_size = n \<rparr>"
| "stat Missing = None"

fun readFile :: "fsnode \<Rightarrow> string option" where
  "readFile (File n c) = c"
| "readFile node = None"

fun readdir :: "fsnode \<Rightarrow> (string \<times> fsnode) list option" where
  "readdir (Dir es) = es"
| "readdir node = None"

text \<open>
  A file path together with what the file system holds there: the walker returns such
  pairs, where the source returns the path and asks the file system again.
\<close>

type_synonym located = "string \<times> fsnode"

section \<open>File walker\<close>

text \<open>
  \<open>getAllFiles\<close> and its \<open>for\<close> loop over the directory listing. A failing \<open>readdir\<close>
  or \<open>stat\<close> throws to the \<open>catch\<close> of the enclosing call, which returns the files
  gathered so far.
\<close>

function getAllFiles :: "fsnode \<Rightarrow> string \<Rightarrow> located list \<Rightarrow> located list"
  and getAllFiles_loop :: "(string \<times> fsnode) list \<Rightarrow> string \<Rightarrow> located list \<Rightarrow> located list" where
  "getAllFiles (Dir (Some files)) dirPath arrayOfFiles = getAllFiles_loop files dirPath arrayOfFiles"
| "getAllFiles (Dir None) dirPath arrayOfFiles = arrayOfFiles"
| "getAllFiles (File n c) dirPath arrayOfFiles = arrayOfFiles"
| "getAllFiles (Other n) dirPath arrayOfFiles = arrayOfFiles"
| "getAllFiles Missing dirPath arrayOfFiles = arrayOfFiles"
| "getAllFiles_loop [] dirPath arrayOfFiles = arrayOfFiles"
| "getAllFiles_loop ((file, node) # rest) dirPath arrayOfFiles =
     (if startsWith file ''.'' \<or> file = ''node_modules'' \<or> file = ''.git''
      then getAllFiles_loop rest dirPath arrayOfFiles
      else (case stat node of
              None \<Rightarrow> arrayOfFiles
            | Some st \<Rightarrow>
                if isDirectory st
                then getAllFiles_loop rest dirPath
                       (getAllFiles node (path_join dirPath file) arrayOfFiles)
                else getAllFiles_loop rest dirPath
                       (arrayOfFiles @ [(path_join dirPath file, node)])))"
  by pat_completeness auto
termination
  by (relation "measure (\<lambda>x. case x of
          Inl (node, _, _) \<Rightarrow> size node
        | Inr (es, _, _) \<Rightarrow> size_list (size_prod (\<lambda>_. 0) size) es)")
     auto

section \<open>Configuration file, vector store and embedding service\<close>

record config =
  cfg_provider :: string
  cfg_apiKey :: "string option"
  cfg_model :: string
  cfg_codebasePath :: "string option"
  cfg_openaiApiKey :: "string option"
  cfg_qdrantApiKey :: "string option"

text \<open>An embedding; the floating-point coordinates are kept as rationals.\<close>

type_synonym vector = "rat list"

record chunk_payload =
  filePath :: string
  codeChunk :: string
  startLine :: nat
  endLine :: nat
  codebasePath :: string
  timestamp :: string

record point =
  point_id :: string
  point_vector :: "vector option"
  payload :: chunk_payload

record scored_point =
  score :: rat
  scored_payload :: chunk_payload

text \<open>A filter of the vector store: the \<open>must\<close> list of \<open>key\<close>/\<open>match.value\<close> conditions.\<close>

type_synonym qfilter = "(string \<times> string) list"

text \<open>
  What the program cannot decide: the configuration file, the file system, the clock, the
  outcome of each call to the embedding service, the vector store and the language model,
  and the library functions that are taken as given.
\<close>

record env =
  config_file :: "config option"
  fs :: "string \<Rightarrow> fsnode"
  now :: string
  md5_hex :: "string \<Rightarrow> string"
  decodeURIComponent :: "string \<Rightarrow> string option"
  toFixed3 :: "rat \<Rightarrow> string"
  embed :: "string \<Rightarrow> error + vector"
  getCollections :: "error + string list"
  createCollection :: "error option"
  upsert_fault :: "point \<Rightarrow> error option"
  search_fault :: "error option"
  delete_fault :: "error option"
  similarity :: "vector \<Rightarrow> vector \<Rightarrow> rat"
  persona_instructions :: "string \<Rightarrow> string"
  llm :: "config \<Rightarrow> string \<Rightarrow> error + string"

text \<open>
  The global variables of the server, and with them the points held by the collection
  \<open>roo-cli-codebase\<close> of the vector store.
\<close>

record server =
  qdrantClient :: bool
  openaiClient :: bool
  isIndexing :: bool
  indexedCodebases :: "string set"
  collection :: "point list"

definition initial_server :: server where
  "initial_server =
     \<lparr> qdrantClient = False, openaiClient = False, isIndexing = False,
       indexedCodebases = {}, collection = [] \<rparr>"

definition collectionName :: string where
  "collectionName = ''roo-cli-codebase''"

definition DEFAULT_CONFIG :: config where
  "DEFAULT_CONFIG =
     \<lparr> cfg_provider = ''anthropic'', cfg_apiKey = None,
       cfg_model = ''claude-3-5-sonnet-20241022'', cfg_codebasePath = None,
       cfg_openaiApiKey = None, cfg_qdrantApiKey = None \<rparr>"

definition loadConfig :: "env \<Rightarrow> config" where
  "loadConfig e = (case config_file e of Some c \<Rightarrow> c | None \<Rightarrow> DEFAULT_CONFIG)"

definition initializeQdrant :: "env \<Rightarrow> server \<Rightarrow> (error + unit) \<times> server" where
  "initializeQdrant e s =
     (if \<not> qdrantClient s then
        (let s1 = s\<lparr>qdrantClient := True\<rparr>
         in case getCollections e of
              Inl err \<Rightarrow> (Inl err, s1)
            | Inr cols \<Rightarrow>
                if collectionName \<in> set cols then (Inr (), s1)
                else (case createCollection e of
                        Some err \<Rightarrow> (Inl err, s1)
                      | None \<Rightarrow> (Inr (), s1)))
      else (Inr (), s))"

definition initializeOpenAI :: "config \<Rightarrow> server \<Rightarrow> server" where
  "initializeOpenAI c s =
     (if \<not> openaiClient s \<and> truthy (cfg_openaiApiKey c) then s\<lparr>openaiClient := True\<rparr> else s)"

fun embed_each :: "(string \<Rightarrow> error + vector) \<Rightarrow> string list \<Rightarrow> error + vector list" where
  "embed_each f [] = Inr []"
| "embed_each f (t # ts) =
     (case f t of
        Inl err \<Rightarrow> Inl err
      | Inr v \<Rightarrow> (case embed_each f ts of Inl err \<Rightarrow> Inl err | Inr vs \<Rightarrow> Inr (v # vs)))"

definition createEmbeddings :: "env \<Rightarrow> server \<Rightarrow> string list \<Rightarrow> error + vector list" where
  "createEmbeddings e s texts =
     (if \<not> openaiClient s
      then Inl (Error ''OpenAI client not initialized. Please set openaiApiKey in config.'')
      else (case embed_each (embed e) texts of
              Inl err \<Rightarrow> Inl (Error (''Failed to create embeddings: '' @ message err))
            | Inr vs \<Rightarrow> Inr vs))"

text \<open>
  The vector store. A point matches a filter when every condition of the filter holds of
  its payload. An upsert replaces the point with the same identifier; a point without a
  vector is refused. A search scores the points that match the filter, drops the scores
  below the threshold, orders by descending score and returns at most \<open>limit\<close> results.
\<close>

fun payload_field :: "string \<Rightarrow> chunk_payload \<Rightarrow> string option" where
  "payload_field k p =
     (if k = ''codebasePath'' then Some (codebasePath p)
      else if k = ''filePath'' then Some (filePath p)
      else if k = ''codeChunk'' then Some (codeChunk p)
      else if k = ''timestamp'' then Some (timestamp p)
      else None)"

definition matches :: "qfilter option \<Rightarrow> chunk_payload \<Rightarrow> bool" where
  "matches flt p =
     (case flt of None \<Rightarrow> True | Some must \<Rightarrow> list_all (\<lambda>(k, v). payload_field k p = Some v) must)"

definition qdrant_upsert :: "env \<Rightarrow> point \<Rightarrow> point list \<Rightarrow> error + point list" where
  "qdrant_upsert e p col =
     (case upsert_fault e p of
        Some err \<Rightarrow> Inl err
      | None \<Rightarrow>
          (case point_vector p of
             None \<Rightarrow> Inl (Error ''Bad Request'')
           | Some v \<Rightarrow> Inr (filter (\<lambda>q. point_id q \<noteq> point_id p) col @ [p])))"

definition score_point :: "env \<Rightarrow> vector \<Rightarrow> point \<Rightarrow> scored_point option" where
  "score_point e q p =
     (case point_vector p of
        None \<Rightarrow> None
      | Some v \<Rightarrow> Some \<lparr> score = similarity e q v, scored_payload = payload p \<rparr>)"

definition qdrant_search ::
  "env \<Rightarrow> point list \<Rightarrow> vector option \<Rightarrow> qfilter option \<Rightarrow> nat \<Rightarrow> rat \<Rightarrow>
     error + scored_point list" where
  "qdrant_search e col qv flt limit score_threshold =
     (case search_fault e of
        Some err \<Rightarrow> Inl err
      | None \<Rightarrow>
          (case qv of
             None \<Rightarrow> Inl (Error ''Bad Request'')
           | Some q \<Rightarrow>
               Inr (take limit
                     (sort_key (\<lambda>r. - score r)
                       (filter (\<lambda>r. score_threshold \<le> score r)
                         (List.map_filter (score_point e q)
                           (filter (\<lambda>p. matches flt (payload p)) col)))))))"

definition qdrant_delete :: "env \<Rightarrow> point list \<Rightarrow> qfilter \<Rightarrow> error + point list" where
  "qdrant_delete e col must =
     (case delete_fault e of
        Some err \<Rightarrow> Inl err
      | None \<Rightarrow> Inr (filter (\<lambda>p. \<not> matches (Some must) (payload p)) col))"

section \<open>Indexer\<close>

text \<open>
  The point that \<open>indexFile\<close> builds for chunk \<open>i\<close>: approximate line numbers, the
  first embedding of the response (\<open>undefined\<close> when the response is empty), the
  identifier and the payload.
\<close>

definition chunkPoint :: "env \<Rightarrow> string \<Rightarrow> string \<Rightarrow> nat \<Rightarrow> string \<Rightarrow> vector list \<Rightarrow> point" where
  "chunkPoint e relativePath rootPath i chunk embeddings =
     (let startLine' =
            nat ((int i * (maxChunkSize INDEXING_CONFIG - overlapSize INDEXING_CONFIG)) div 50) + 1;
          endLine' = startLine' + length chunk div 50;
          embedding = (case embeddings of [] \<Rightarrow> None | v # vs \<Rightarrow> Some v);
          chunkId = generateChunkId (md5_hex e) relativePath startLine' chunk
      in \<lparr> point_id = chunkId, point_vector = embedding,
           payload = \<lparr> filePath = relativePath, codeChunk = chunk,
                       startLine = startLine', endLine = endLine',
                       codebasePath = rootPath, timestamp = now e \<rparr> \<rparr>)"

text \<open>
  The call \<open>qdrantClient.upsert\<close> of one point: a \<open>TypeError\<close> while the client is still
  \<open>null\<close>, the answer of the vector store otherwise.
\<close>

definition client_upsert :: "env \<Rightarrow> server \<Rightarrow> point \<Rightarrow> error + point list" where
  "client_upsert e s pt =
     (if \<not> qdrantClient s then Inl (Error ''Cannot read properties of null'')
      else qdrant_upsert e pt (collection s))"

text \<open>
  The \<open>for\<close> loop of \<open>indexFile\<close> over the chunks, from chunk \<open>i\<close> on: the remaining
  chunks, the index \<open>i\<close> and the counter \<open>indexedChunks\<close> are the loop variables. A failing
  embedding or upsert throws out of the loop.
\<close>

fun indexFile_loop ::
  "env \<Rightarrow> string \<Rightarrow> string \<Rightarrow> string list \<Rightarrow> nat \<Rightarrow> nat \<Rightarrow> server \<Rightarrow> (error + nat) \<times> server" where
  "indexFile_loop e relativePath rootPath [] i indexedChunks s = (Inr indexedChunks, s)"
| "indexFile_loop e relativePath rootPath (chunk # rest) i indexedChunks s =
     (case createEmbeddings e s [chunk] of
        Inl err \<Rightarrow> (Inl err, s)
      | Inr embeddings \<Rightarrow>
          (case client_upsert e s (chunkPoint e relativePath rootPath i chunk embeddings) of
             Inl err \<Rightarrow> (Inl err, s)
           | Inr col \<Rightarrow>
               indexFile_loop e relativePath rootPath rest (i + 1) (indexedChunks + 1)
                 (s\<lparr>collection := col\<rparr>)))"

text \<open>Whether the embedding or the upsert of chunk \<open>i\<close> fails in state \<open>s\<close>.\<close>

definition chunk_fails :: "env \<Rightarrow> server \<Rightarrow> string \<Rightarrow> string \<Rightarrow> nat \<Rightarrow> string \<Rightarrow> bool" where
  "chunk_fails e s relativePath rootPath i chunk =
     (case createEmbeddings e s [chunk] of
        Inl err \<Rightarrow> True
      | Inr embeddings \<Rightarrow>
          (case client_upsert e s (chunkPoint e relativePath rootPath i chunk embeddings) of
             Inl err \<Rightarrow> True
           | Inr col \<Rightarrow> False))"

text \<open>
  \<open>indexFile\<close>: everything is inside one \<open>try\<close>, whose \<open>catch\<close> logs and returns 0. The
  result is \<open>None\<close> when the chunker does not return.
\<close>

definition indexFile :: "env \<Rightarrow> server \<Rightarrow> located \<Rightarrow> string \<Rightarrow> (nat \<times> server) option" where
  "indexFile e s file rootPath =
     (case stat (snd file) of
        None \<Rightarrow> Some (0, s)
      | Some st \<Rightarrow>
          if st_size st > maxFileSize INDEXING_CONFIG then Some (0, s)
          else (case readFile (snd file) of
                  None \<Rightarrow> Some (0, s)
                | Some content \<Rightarrow>
                    (case splitIntoChunks content (maxChunkSize INDEXING_CONFIG)
                            (overlapSize INDEXING_CONFIG) of
                       None \<Rightarrow> None
                     | Some chunks \<Rightarrow>
                         (case indexFile_loop e (path_relative rootPath (fst file)) rootPath
                                 chunks 0 0 s of
                            (Inl err, s') \<Rightarrow> Some (0, s')
                          | (Inr indexedChunks, s') \<Rightarrow> Some (indexedChunks, s')))))"

text \<open>
  One batch: \<open>Promise.all\<close> over \<open>indexFile\<close> of each file of the batch. \<open>indexFile\<close> never
  rejects, so the batch yields one chunk count per file, in the order of the files; the
  effects on the store are taken in that order.
\<close>

fun indexBatch :: "env \<Rightarrow> server \<Rightarrow> located list \<Rightarrow> string \<Rightarrow> (nat list \<times> server) option" where
  "indexBatch e s [] rootPath = Some ([], s)"
| "indexBatch e s (file # files) rootPath =
     (case indexFile e s file rootPath of
        None \<Rightarrow> None
      | Some (chunks, s1) \<Rightarrow>
          (case indexBatch e s1 files rootPath of
             None \<Rightarrow> None
           | Some (results, s2) \<Rightarrow> Some (chunks # results, s2)))"

record index_result =
  totalChunks :: nat
  processedFiles :: nat

definition batchSize :: nat where
  "batchSize = 10"

text \<open>
  The loop over the batches, \<open>for (let i = 0; i < codeFiles.length; i += batchSize)\<close>, with
  the inner loop over the results of a batch that adds to the two counters.
\<close>

function indexCodebase_batches ::
  "env \<Rightarrow> string \<Rightarrow> located list \<Rightarrow> nat \<Rightarrow> nat \<Rightarrow> nat \<Rightarrow> server \<Rightarrow> (index_result \<times> server) option" where
  "indexCodebase_batches e rootPath codeFiles i totalChunks' processedFiles' s =
     (if i < length codeFiles then
        (case indexBatch e s (take batchSize (drop i codeFiles)) rootPath of
           None \<Rightarrow> None
         | Some (results, s1) \<Rightarrow>
             indexCodebase_batches e rootPath codeFiles (i + batchSize)
               (fold (\<lambda>chunks t. t + chunks) results totalChunks')
               (fold (\<lambda>chunks p. p + 1) results processedFiles') s1)
      else Some (\<lparr> totalChunks = totalChunks', processedFiles = processedFiles' \<rparr>, s))"
  by pat_completeness auto
termination
  by (relation "measure (\<lambda>(e, rootPath, codeFiles, i, t, p, s). length codeFiles - i)")
     (auto simp: batchSize_def)

declare indexCodebase_batches.simps [simp del]

text \<open>
  \<open>indexCodebase\<close> in three parts. \<open>indexCodebase_begin\<close> is what runs before the first
  \<open>await\<close>: the two guards and the setting of the busy flag. \<open>indexCodebase_try\<close> is the
  rest of the \<open>try\<close> block. \<open>indexCodebase_settle\<close> runs the block, rethrows in \<open>catch\<close> and
  clears the flag in \<open>finally\<close>.
\<close>

definition indexCodebase_begin :: "server \<Rightarrow> string option \<Rightarrow> error + server" where
  "indexCodebase_begin s path =
     (if isIndexing s then Inl (Error ''Indexing already in progress'')
      else if \<not> truthy path then Inl (Error ''Codebase path is required'')
      else Inr (s\<lparr>isIndexing := True\<rparr>))"

definition codeFilesOf :: "env \<Rightarrow> string \<Rightarrow> located list" where
  \<comment> \<open>\<open>allFiles\<close> filtered by the extension allow-list\<close>
  "codeFilesOf e rootPath =
     filter (\<lambda>file. extname (fst file) \<in> set CODE_EXTENSIONS)
       (getAllFiles (fs e rootPath) rootPath [])"

definition indexCodebase_try ::
  "env \<Rightarrow> string \<Rightarrow> server \<Rightarrow> ((error + index_result) \<times> server) option" where
  "indexCodebase_try e rootPath s =
     (let cfg = loadConfig e
      in case initializeQdrant e s of
           (Inl err, s1) \<Rightarrow> Some (Inl err, s1)
         | (Inr u, s1) \<Rightarrow>
             (let s2 = initializeOpenAI cfg s1;
                  codeFiles = codeFilesOf e rootPath
              in case indexCodebase_batches e rootPath codeFiles 0 0 0 s2 of
                   None \<Rightarrow> None
                 | Some (res, s3) \<Rightarrow>
                     Some (Inr res, s3\<lparr>indexedCodebases := insert rootPath (indexedCodebases s3)\<rparr>)))"

definition indexCodebase_settle ::
  "env \<Rightarrow> string \<Rightarrow> server \<Rightarrow> ((error + index_result) \<times> server) option" where
  "indexCodebase_settle e rootPath s =
     (case indexCodebase_try e rootPath s of
        None \<Rightarrow> None
      | Some (r, s1) \<Rightarrow> Some (r, s1\<lparr>isIndexing := False\<rparr>))"

definition indexCodebase ::
  "env \<Rightarrow> server \<Rightarrow> string option \<Rightarrow> ((error + index_result) \<times> server) option" where
  "indexCodebase e s path =
     (case indexCodebase_begin s path of
        Inl err \<Rightarrow> Some (Inl err, s)
      | Inr s1 \<Rightarrow> indexCodebase_settle e (case path of Some p \<Rightarrow> p | None \<Rightarrow> []) s1)"

text \<open>
  A file that \<open>indexFile\<close> skips or fails on, started in state \<open>s\<close>: its \<open>stat\<close> fails, it
  is over the size limit, it cannot be read, or the embedding or upsert of one of its
  chunks fails.
\<close>

definition skipped_or_failed :: "env \<Rightarrow> server \<Rightarrow> located \<Rightarrow> string \<Rightarrow> bool" where
  "skipped_or_failed e s file rootPath =
     (case stat (snd file) of
        None \<Rightarrow> True
      | Some st \<Rightarrow>
          st_size st > maxFileSize INDEXING_CONFIG \<or>
          (case readFile (snd file) of
             None \<Rightarrow> True
           | Some content \<Rightarrow>
               (case splitIntoChunks content (maxChunkSize INDEXING_CONFIG)
                       (overlapSize INDEXING_CONFIG) of
                  None \<Rightarrow> False
                | Some chunks \<Rightarrow>
                    (case fst (indexFile_loop e (path_relative rootPath (fst file)) rootPath
                                 chunks 0 0 s) of
                       Inl err \<Rightarrow> True
                     | Inr n \<Rightarrow> False))))"

text \<open>
  Every point of the collection in \<open>s'\<close> was already in the collection in \<open>s\<close> or carries
  the root \<open>rootPath\<close> in its payload.
\<close>

definition adds_only_root :: "string \<Rightarrow> server \<Rightarrow> server \<Rightarrow> bool" where
  "adds_only_root rootPath s s' =
     (\<forall>pt \<in> set (collection s'). pt \<in> set (collection s) \<or> codebasePath (payload pt) = rootPath)"

section \<open>Retriever\<close>

record search_result =
  res_score :: rat
  res_filePath :: string
  res_codeChunk :: string
  res_startLine :: nat
  res_endLine :: nat
  res_codebasePath :: string

text \<open>The filter that \<open>searchCodebase\<close> builds: \<open>if (codebasePath)\<close> tests truthiness.\<close>

fun searchFilter :: "string option \<Rightarrow> qfilter option" where
  "searchFilter None = None"
| "searchFilter (Some p) = (if p = [] then None else Some [(''codebasePath'', p)])"

definition score_threshold_default :: rat where
  "score_threshold_default = 7 / 10"

definition searchCodebase ::
  "env \<Rightarrow> server \<Rightarrow> string \<Rightarrow> string option \<Rightarrow> nat \<Rightarrow> (error + search_result list) \<times> server" where
  "searchCodebase e s query path limit =
     (let cfg = loadConfig e
      in case initializeQdrant e s of
           (Inl err, s1) \<Rightarrow> (Inl err, s1)
         | (Inr u, s1) \<Rightarrow>
             (let s2 = initializeOpenAI cfg s1
              in case createEmbeddings e s2 [query] of
                   Inl err \<Rightarrow> (Inl err, s2)
                 | Inr embeddings \<Rightarrow>
                     (let queryEmbedding = (case embeddings of [] \<Rightarrow> None | v # vs \<Rightarrow> Some v)
                      in case qdrant_search e (collection s2) queryEmbedding (searchFilter path)
                                limit score_threshold_default of
                           Inl err \<Rightarrow> (Inl err, s2)
                         | Inr searchResult \<Rightarrow>
                             (Inr (map (\<lambda>pt. \<lparr> res_score = score pt,
                                              res_filePath = filePath (scored_payload pt),
                                              res_codeChunk = codeChunk (scored_payload pt),
                                              res_startLine = startLine (scored_payload pt),
                                              res_endLine = endLine (scored_payload pt),
                                              res_codebasePath = codebasePath (scored_payload pt) \<rparr>)
                                       searchResult), s2))))"

section \<open>Context assembler\<close>

text \<open>The two icons of the directory listing, as their UTF-8 bytes.\<close>

definition folder_icon :: string where
  "folder_icon = [CHR 0xF0, CHR 0x9F, CHR 0x93, CHR 0x81]"

definition file_icon :: string where
  "file_icon = [CHR 0xF0, CHR 0x9F, CHR 0x93, CHR 0x84]"

definition indent :: "nat \<Rightarrow> string" where
  \<comment> \<open>\<open>'  '.repeat(currentDepth)\<close>\<close>
  "indent d = concat (replicate d ''  '')"

text \<open>
  \<open>getDirectoryStructure\<close> and its loop over the first 20 entries. A failing \<open>stat\<close>
  throws to the \<open>catch\<close> of the enclosing call, which returns the empty string: the loop
  returns \<open>None\<close> then.
\<close>

function getDirectoryStructure :: "fsnode \<Rightarrow> string \<Rightarrow> nat \<Rightarrow> nat \<Rightarrow> string"
  and getDirectoryStructure_loop ::
    "(string \<times> fsnode) list \<Rightarrow> string \<Rightarrow> nat \<Rightarrow> nat \<Rightarrow> string list \<Rightarrow> string list option" where
  "getDirectoryStructure (Dir (Some items)) rootPath maxDepth currentDepth =
     (if currentDepth > maxDepth then []
      else (case getDirectoryStructure_loop (take 20 items) rootPath maxDepth currentDepth [] of
              None \<Rightarrow> []
            | Some structure \<Rightarrow> join nl structure))"
| "getDirectoryStructure (Dir None) rootPath maxDepth currentDepth = []"
| "getDirectoryStructure (File n c) rootPath maxDepth currentDepth = []"
| "getDirectoryStructure (Other n) rootPath maxDepth currentDepth = []"
| "getDirectoryStructure Missing rootPath maxDepth currentDepth = []"
| "getDirectoryStructure_loop [] rootPath maxDepth currentDepth structure = Some structure"
| "getDirectoryStructure_loop ((item, Missing) # rest) rootPath maxDepth currentDepth structure =
     None"
| "getDirectoryStructure_loop ((item, Dir es) # rest) rootPath maxDepth currentDepth structure =
     (if \<not> startsWith item ''.'' \<and> \<not> startsWith item ''node_modules'' then
        (let subStructure =
               getDirectoryStructure (Dir es) (path_join rootPath item) maxDepth (currentDepth + 1);
             structure1 = structure @ [indent currentDepth @ folder_icon @ '' '' @ item @ ''/''];
             structure2 = (if subStructure \<noteq> [] then structure1 @ [subStructure] else structure1)
         in getDirectoryStructure_loop rest rootPath maxDepth currentDepth structure2)
      else getDirectoryStructure_loop rest rootPath maxDepth currentDepth structure)"
| "getDirectoryStructure_loop ((item, File n c) # rest) rootPath maxDepth currentDepth structure =
     (if extname item \<in> set CODE_EXTENSIONS \<or> item = ''package.json'' \<or> item = ''README.md''
      then getDirectoryStructure_loop rest rootPath maxDepth currentDepth
             (structure @ [indent currentDepth @ file_icon @ '' '' @ item])
      else getDirectoryStructure_loop rest rootPath maxDepth currentDepth structure)"
| "getDirectoryStructure_loop ((item, Other n) # rest) rootPath maxDepth currentDepth structure =
     getDirectoryStructure_loop rest rootPath maxDepth currentDepth structure"
  by pat_completeness auto

termination
proof (relation "measure (\<lambda>x. case x of
          Inl (node, _, _, _) \<Rightarrow> size node
        | Inr (es, _, _, _, _) \<Rightarrow> size_list (size_prod (\<lambda>_. 0) size) es)", goal_cases)
  case 1
  then show ?case by simp
next
  case (2 items rootPath maxDepth currentDepth)
  have "size_list (size_prod (\<lambda>_. 0) size) (take k items)
          \<le> size_list (size_prod (\<lambda>_. 0) size) items" for k
    by (induction items arbitrary: k) (auto simp: take_Cons split: nat.splits)
  from this [of 20] show ?case by simp
qed auto

definition importantFiles :: "string list" where
  "importantFiles =
     [''package.json'', ''README.md'', ''requirements.txt'', ''Cargo.toml'', ''go.mod'',
      ''pom.xml'', ''build.gradle'', ''Gemfile'', ''composer.json'', ''pyproject.toml'']"

definition truncated :: "nat \<Rightarrow> string \<Rightarrow> string" where
  \<comment> \<open>\<open>content.slice(0, n)\<close> followed by the marker when the content is longer\<close>
  "truncated n content = take n content @ (if length content > n then nl @ ''...'' else [])"

definition getKeyFiles :: "fsnode \<Rightarrow> string \<Rightarrow> string list" where
  "getKeyFiles node rootPath =
     (case readdir node of
        None \<Rightarrow> []
      | Some items \<Rightarrow>
          List.map_filter
            (\<lambda>(item, n).
               if item \<in> set importantFiles then
                 (case readFile n of
                    None \<Rightarrow> None
                  | Some content \<Rightarrow>
                      Some (''### '' @ item @ '':'' @ nl @ ''```'' @ nl @ truncated 1000 content
                            @ nl @ ''```''))
               else None)
            items)"

definition extMap :: "(string \<times> string) list" where
  "extMap =
     [(''.js'', ''javascript''), (''.ts'', ''typescript''), (''.jsx'', ''javascript''),
      (''.tsx'', ''typescript''), (''.py'', ''python''), (''.java'', ''java''), (''.cpp'', ''cpp''),
      (''.c'', ''c''), (''.cs'', ''csharp''), (''.php'', ''php''), (''.rb'', ''ruby''),
      (''.go'', ''go''), (''.rs'', ''rust''), (''.swift'', ''swift''), (''.kt'', ''kotlin''),
      (''.scala'', ''scala''), (''.html'', ''html''), (''.css'', ''css''), (''.scss'', ''scss''),
      (''.json'', ''json''), (''.yaml'', ''yaml''), (''.yml'', ''yaml''), (''.toml'', ''toml''),
      (''.md'', ''markdown''), (''.txt'', ''text''), (''.sh'', ''bash''), (''.bash'', ''bash''),
      (''.zsh'', ''bash'')]"

definition getFileExtension :: "string \<Rightarrow> string" where
  "getFileExtension p = (case map_of extMap (extname p) of Some l \<Rightarrow> l | None \<Rightarrow> ''text'')"

definition getCodeFiles :: "fsnode \<Rightarrow> string \<Rightarrow> nat \<Rightarrow> string list" where
  "getCodeFiles node rootPath maxFiles =
     (let allFiles = getAllFiles node rootPath [];
          relevantFiles =
            take maxFiles
              (filter (\<lambda>file. extname (fst file) \<in> set CODE_EXTENSIONS
                               \<and> \<not> str_includes (fst file) ''node_modules''
                               \<and> \<not> str_includes (fst file) ''.git'')
                 allFiles)
      in List.map_filter
           (\<lambda>file.
              case readFile (snd file) of
                None \<Rightarrow> None
              | Some content \<Rightarrow>
                  Some (''### '' @ path_relative rootPath (fst file) @ '':'' @ nl @ ''```''
                        @ getFileExtension (fst file) @ nl @ truncated 2000 content @ nl @ ''```''))
           relevantFiles)"

definition getCodebaseContext :: "env \<Rightarrow> string option \<Rightarrow> string" where
  "getCodebaseContext e path =
     (case path of
        None \<Rightarrow> []
      | Some p \<Rightarrow>
          if p = [] then []
          else
            (let structure = getDirectoryStructure (fs e p) p 3 0;
                 context1 = [''## Directory Structure:'' @ nl @ structure @ nl];
                 keyFiles = getKeyFiles (fs e p) p;
                 context2 = (if length keyFiles > 0
                             then context1 @ [''## Key Files:'' @ nl @ join (nl @ nl) keyFiles @ nl]
                             else context1);
                 codeFiles = getCodeFiles (fs e p) p 10;
                 context3 = (if length codeFiles > 0
                             then context2 @ [''## Code Files:'' @ nl @ join (nl @ nl) codeFiles @ nl]
                             else context2)
             in join nl context3))"

section \<open>Retrieval orchestration\<close>





section \<open>Clearing an index, and the server over time\<close>

text \<open>The handler of \<open>DELETE /index/:codebasePath\<close>, from the path parameter on.\<close>

definition clearIndex :: "env \<Rightarrow> server \<Rightarrow> string \<Rightarrow> (error + string) \<times> server" where
  "clearIndex e s param =
     (case decodeURIComponent e param of
        None \<Rightarrow> (Inl (Error ''URI malformed''), s)
      | Some decodedPath \<Rightarrow>
          (case (if \<not> qdrantClient s then initializeQdrant e s else (Inr (), s)) of
             (Inl err, s1) \<Rightarrow> (Inl err, s1)
           | (Inr u, s1) \<Rightarrow>
               (case qdrant_delete e (collection s1) [(''codebasePath'', decodedPath)] of
                  Inl err \<Rightarrow> (Inl err, s1)
                | Inr col \<Rightarrow>
                    (Inr (''Index cleared for: '' @ decodedPath),
                     s1\<lparr>collection := col,
                        indexedCodebases := indexedCodebases s1 - {decodedPath}\<rparr>))))"

text \<open>
  The server over time. An \<open>indexCodebase\<close> call runs up to its first \<open>await\<close> when it
  is made (\<open>IndexCall\<close>) and, if it passed the guards, stays in flight until it settles
  (\<open>IndexSettle\<close>, with the environment that decides its outcome); other requests are
  served in between. \<open>inflight\<close> is the root of the call in flight. Each event leaves an
  entry in the log.
\<close>

datatype event =
    IndexCall "string option"
  | IndexSettle env
  | ClearCall string env
  | SearchCall string "string option" nat env

datatype outcome =
    IndexRejected error
  | IndexStarted string
  | IndexSettled string "error + index_result"
  | NothingInFlight
  | ClearDone "string option" "error + string"
  | SearchDone "error + search_result list"

record system =
  srv :: server
  inflight :: "string option"

definition initial_system :: system where
  "initial_system = \<lparr> srv = initial_server, inflight = None \<rparr>"

fun step :: "system \<Rightarrow> event \<Rightarrow> outcome \<times> system" where
  "step sys (IndexCall path) =
     (case indexCodebase_begin (srv sys) path of
        Inl err \<Rightarrow> (IndexRejected err, sys)
      | Inr s1 \<Rightarrow>
          (let rootPath = (case path of Some p \<Rightarrow> p | None \<Rightarrow> [])
           in (IndexStarted rootPath, sys\<lparr>srv := s1, inflight := Some rootPath\<rparr>)))"
| "step sys (IndexSettle e) =
     (case inflight sys of
        None \<Rightarrow> (NothingInFlight, sys)
      | Some rootPath \<Rightarrow>
          (case indexCodebase_settle e rootPath (srv sys) of
             None \<Rightarrow> (NothingInFlight, sys)
           | Some (r, s1) \<Rightarrow> (IndexSettled rootPath r, sys\<lparr>srv := s1, inflight := None\<rparr>)))"
| "step sys (ClearCall param e) =
     (case clearIndex e (srv sys) param of
        (r, s1) \<Rightarrow> (ClearDone (decodeURIComponent e param) r, sys\<lparr>srv := s1\<rparr>))"
| "step sys (SearchCall query path limit e) =
     (case searchCodebase e (srv sys) query path limit of
        (r, s1) \<Rightarrow> (SearchDone r, sys\<lparr>srv := s1\<rparr>))"

fun run :: "system \<Rightarrow> event list \<Rightarrow> outcome list \<times> system" where
  "run sys [] = ([], sys)"
| "run sys (ev # evs) =
     (case step sys ev of
        (out, sys1) \<Rightarrow> (case run sys1 evs of (outs, sys2) \<Rightarrow> (out # outs, sys2)))"

text \<open>
  The indexed set as the specification describes it, read off the log: a root enters when
  an indexing run for it completes successfully, and leaves when a clear-index request for
  it succeeds.
\<close>

fun indexed_after :: "string set \<Rightarrow> outcome list \<Rightarrow> string set" where
  "indexed_after S [] = S"
| "indexed_after S (IndexSettled r (Inr res) # outs) = indexed_after (insert r S) outs"
| "indexed_after S (ClearDone (Some p) (Inr msg) # outs) = indexed_after (S - {p}) outs"
| "indexed_after S (out # outs) = indexed_after S outs"

section \<open>Example environments\<close>

text \<open>
  Two small codebases, \<open>/a\<close> and \<open>/b\<close>, a third one, \<open>/c\<close>, with a file over the size
  limit, a file that cannot be read and a file outside the allow-list, and an environment in which every external call
  succeeds; the hash is the identity there. In \<open>unreachable_store_env\<close> the vector store
  refuses the connection.
\<close>

definition example_fs :: "string \<Rightarrow> fsnode" where
  "example_fs p =
     (if p = ''/a'' then Dir (Some [(''main.js'', File 14 (Some ''console.log(1)''))])
      else if p = ''/b'' then Dir (Some [(''lib.py'', File 8 (Some ''print(2)''))])
      else if p = ''/c'' then
        Dir (Some [(''big.js'', File 2000000 (Some ''x'')), (''locked.py'', File 10 None),
                   (''notes.bin'', File 3 (Some ''abc''))])
      else Missing)"

definition example_config :: config where
  "example_config =
     \<lparr> cfg_provider = ''anthropic'', cfg_apiKey = Some ''key'',
       cfg_model = ''claude-3-5-sonnet-20241022'', cfg_codebasePath = None,
       cfg_openaiApiKey = Some ''key'', cfg_qdrantApiKey = None \<rparr>"

definition example_env :: env where
  "example_env =
     \<lparr> config_file = Some example_config, fs = example_fs, now = ''2024-01-01T00:00:00.000Z'',
       md5_hex = (\<lambda>s. s), decodeURIComponent = Some, toFixed3 = (\<lambda>r. ''0.900''),
       embed = (\<lambda>t. Inr [1]), getCollections = Inr [], createCollection = None,
       upsert_fault = (\<lambda>p. None), search_fault = None, delete_fault = None,
       similarity = (\<lambda>q v. 9 / 10), persona_instructions = (\<lambda>p. []),
       llm = (\<lambda>c p. Inr ''answer'') \<rparr>"

definition unreachable_store_env :: env where
  "unreachable_store_env = example_env\<lparr>getCollections := Inl (Error ''connect ECONNREFUSED'')\<rparr>"

text \<open>The server after indexing \<open>/a\<close> and then \<open>/b\<close> in the example environment.\<close>

definition indexed_ab :: server where
  "indexed_ab =
     srv (snd (run initial_system
                 [IndexCall (Some ''/a''), IndexSettle example_env,
                  IndexCall (Some ''/b''), IndexSettle example_env]))"

text \<open>An environment in which the search of the vector store fails.\<close>

definition search_down_env :: env where
  "search_down_env = example_env\<lparr>search_fault := Some (Error ''Service Unavailable'')\<rparr>"

text \<open>
  A file of 1001 characters, which has the two chunks of 1000 and of 201 characters, and
  an environment in which the embedding service fails on the texts of length \<open>n\<close>.
\<close>

definition long_file :: located where
  "long_file = (''/d/long.txt'', File 1001 (Some (replicate 1001 (CHR ''a''))))"

definition picky_env :: "nat \<Rightarrow> env" where
  "picky_env n =
     example_env\<lparr>embed := (\<lambda>t. if length t = n then Inl (Error ''rate limit'') else Inr [1])\<rparr>"


text \<open>
  A codebase \<open>/e\<close> with the file \<open>a.js\<close>, whose text is \<open>b.js:1:x\<close>, and the file
  \<open>a.js:1:b.js\<close>, whose text is \<open>x\<close>; the example environment on it, with the hash \<open>h\<close>.
\<close>

definition colliding_fs :: "string \<Rightarrow> fsnode" where
  "colliding_fs p =
     (if p = ''/e'' then
        Dir (Some [(''a.js'', File 8 (Some ''b.js:1:x'')), (''a.js:1:b.js'', File 1 (Some ''x''))])
      else Missing)"

definition colliding_env :: "(string \<Rightarrow> string) \<Rightarrow> env" where
  "colliding_env h = example_env\<lparr>fs := colliding_fs, md5_hex := h\<rparr>"

section \<open>Properties of the chunker\<close>

lemma neg_div_ceil:
  fixes a d :: int
  assumes "0 < d"
  shows "- ((- a) div d) = (a + d - 1) div d"
proof -
  define q where "q = (a + d - 1) div d"
  define r where "r = (a + d - 1) mod d"
  have r: "0 \<le> r" "r < d" using assms by (simp_all add: r_def)
  have "a + d - 1 = d * q + r" by (simp add: q_def r_def)
  then have "- a = d * (- q) + (d - 1 - r)" by (simp add: algebra_simps)
  then have "(- a) div d = - q"
    using r by (intro int_div_pos_eq [where r = "d - 1 - r"]) simp_all
  then show ?thesis by (simp add: q_def)
qed

lemma ceiling_div_int:
  fixes a d :: int
  assumes "0 < d"
  shows "\<lceil>(of_int a :: real) / of_int d\<rceil> = (a + d - 1) div d"
  using neg_div_ceil [OF assms, of a] by (simp add: ceiling_divide_eq_div)

lemma div_two:
  fixes x d :: int
  assumes "0 < d" "2 * d \<le> x" "x < 3 * d"
  shows "x div d = 2"
  using assms by (intro int_div_pos_eq [where r = "x - 2 * d"]) simp_all

lemma js_slice_window:
  "0 \<le> w \<Longrightarrow>
   js_slice text (int s) (min (int s + w) (int (length text))) = take (nat w) (drop s text)"
  by (auto simp: js_slice_def Let_def min_def)

lemma remaining_chunks_step:
  assumes "0 \<le> ov" "ov < w" "w < int L"
  shows "remaining_chunks L w ov = Suc (remaining_chunks (L - nat (w - ov)) w ov)"
proof -
  define d where "d = w - ov"
  have d: "0 < d" using assms by (simp add: d_def)
  define L' where "L' = L - nat d"
  have L': "int L' = int L - d" using assms by (simp add: L'_def d_def)
  show ?thesis
  proof (cases "int L' \<le> w")
    case True
    have "(int L - ov + d - 1) div d = 2"
      using d True assms L' by (intro div_two) (simp_all add: d_def)
    then show ?thesis using True assms by (simp add: remaining_chunks_def d_def [symmetric] L'_def [symmetric])
  next
    case False
    have "(int L - ov + d - 1) div d = (int L' - ov + d - 1 + d) div d"
      using L' by (simp add: algebra_simps)
    also have "\<dots> = (int L' - ov + d - 1) div d + 1"
      using d div_add_self2 [of d "int L' - ov + d - 1"] by simp
    finally have eq: "(int L - ov + d - 1) div d = (int L' - ov + d - 1) div d + 1" .
    have "0 \<le> (int L' - ov + d - 1) div d"
      using d False assms by (intro pos_imp_zdiv_nonneg_iff [THEN iffD2]) (simp_all add: d_def)
    then show ?thesis using False assms eq
      by (simp add: remaining_chunks_def d_def [symmetric] L'_def [symmetric] nat_add_distrib)
  qed
qed

lemma loop_windows:
  assumes ov: "0 \<le> ov" "ov < w"
  shows "s < length text \<Longrightarrow>
    splitIntoChunks_loop text w ov (int s) acc =
      Some (acc @ map (\<lambda>k. take (nat w) (drop (s + k * nat (w - ov)) text))
                      [0..<remaining_chunks (length text - s) w ov])"
proof (induction "length text - s" arbitrary: s acc rule: less_induct)
  case less
  let ?n = "length text"
  have w: "0 \<le> w" using ov by simp
  have sl: "js_slice text (int s) (min (int s + w) (int ?n)) = take (nat w) (drop s text)"
    using w by (rule js_slice_window)
  show ?case
  proof (cases "int s + w < int ?n")
    case False
    then have m: "min (int s + w) (int ?n) = int ?n" by simp
    from False have "remaining_chunks (?n - s) w ov = 1" using less.prems by (simp add: remaining_chunks_def)
    then show ?thesis using less.prems sl [unfolded m]
      by (subst splitIntoChunks_loop.simps) (simp add: m)
  next
    case True
    define s' where "s' = s + nat (w - ov)"
    have s': "int s' = int s + w - ov" using ov by (simp add: s'_def)
    have lt: "s' < ?n" using True ov s' by linarith
    have dec: "?n - s' < ?n - s" using lt ov by (simp add: s'_def)
    have step: "remaining_chunks (?n - s) w ov = Suc (remaining_chunks (?n - s') w ov)"
      using remaining_chunks_step [OF ov, of "?n - s"] True less.prems by (simp add: s'_def)
    have IH: "splitIntoChunks_loop text w ov (int s') (acc @ [take (nat w) (drop s text)]) =
      Some ((acc @ [take (nat w) (drop s text)]) @
             map (\<lambda>k. take (nat w) (drop (s' + k * nat (w - ov)) text)) [0..<remaining_chunks (?n - s') w ov])"
      by (rule less.hyps [OF dec lt])
    have shift: "map (\<lambda>k. take (nat w) (drop (s + k * nat (w - ov)) text)) [0..<Suc (remaining_chunks (?n - s') w ov)]
        = take (nat w) (drop s text) #
          map (\<lambda>k. take (nat w) (drop (s' + k * nat (w - ov)) text)) [0..<remaining_chunks (?n - s') w ov]"
      unfolding upt_conv_Cons [OF zero_less_Suc] map_Suc_upt [symmetric]
      by (simp add: s'_def o_def algebra_simps)
    from True have m: "min (int s + w) (int ?n) = int s + w" by simp
    have "splitIntoChunks_loop text w ov (int s) acc =
          splitIntoChunks_loop text w ov (int s') (acc @ [take (nat w) (drop s text)])"
      using True less.prems sl [unfolded m] s'
      by (subst splitIntoChunks_loop.simps) (simp add: m)
    then show ?thesis unfolding IH step shift by simp
  qed
qed

lemma remaining_chunks_eq:
  assumes "0 \<le> ov" "ov < w" "0 < n"
  shows "remaining_chunks n w ov = chunk_count n w ov"
proof -
  have "0 < w - ov" using assms by simp
  from ceiling_div_int [OF this, of "int n - ov"] show ?thesis
    using assms unfolding remaining_chunks_def chunk_count_def by simp
qed

lemma splitIntoChunks_windows:
  assumes "0 \<le> ov" "ov < w"
  shows "splitIntoChunks text w ov = Some (windows text w ov)"
proof (cases "text = []")
  case True
  then show ?thesis
    by (simp add: splitIntoChunks_def windows_def chunk_count_def splitIntoChunks_loop.simps)
next
  case False
  then have "0 < length text" by simp
  then show ?thesis
    using loop_windows [OF assms, of 0 "text" "[]"] remaining_chunks_eq [OF assms, of "length text"]
    by (simp add: splitIntoChunks_def windows_def)
qed

lemma loop_returns:
  assumes "ov < w"
  shows "\<exists>r. splitIntoChunks_loop text w ov start acc = Some r"
proof (induction "nat (int (length text) - start)" arbitrary: start acc rule: less_induct)
  case less
  show ?case
  proof (cases "start < int (length text)")
    case False
    then show ?thesis by (subst splitIntoChunks_loop.simps) simp
  next
    case True
    show ?thesis
    proof (cases "min (start + w) (int (length text)) = int (length text)")
      case True
      with \<open>start < int (length text)\<close> show ?thesis
        by (subst splitIntoChunks_loop.simps) simp
    next
      case False
      then have m: "min (start + w) (int (length text)) = start + w" by (simp add: min_def split: if_splits)
      have "nat (int (length text) - (start + w - ov)) < nat (int (length text) - start)"
        using True assms by simp
      from less [OF this] obtain r where
        "splitIntoChunks_loop text w ov (start + w - ov) (acc @ [js_slice text start (start + w)]) = Some r"
        by blast
      with True False m show ?thesis
        by (subst splitIntoChunks_loop.simps) simp
    qed
  qed
qed

lemma windows_nth:
  assumes "0 \<le> ov" "ov < w" "k < length (windows text w ov)"
  shows "windows text w ov ! k =
         js_slice text (int k * (w - ov)) (min (int k * (w - ov) + w) (int (length text)))"
proof -
  have w: "0 \<le> w" using assms by simp
  have k: "int (k * nat (w - ov)) = int k * (w - ov)" using assms by simp
  from assms(3) have "windows text w ov ! k = take (nat w) (drop (k * nat (w - ov)) text)"
    by (simp add: windows_def)
  also have "\<dots> = js_slice text (int (k * nat (w - ov)))
                      (min (int (k * nat (w - ov)) + w) (int (length text)))"
    using js_slice_window [OF w, of "text" "k * nat (w - ov)"] by simp
  finally show ?thesis unfolding k .
qed

lemma splitIntoChunks_default:
  "splitIntoChunks text (maxChunkSize INDEXING_CONFIG) (overlapSize INDEXING_CONFIG) =
     Some (windows text 1000 200)"
  by (simp add: INDEXING_CONFIG_def splitIntoChunks_windows)

lemma limited_loop_agrees:
  "splitIntoChunks_limited_loop limit text w ov start chunks = Inr r \<Longrightarrow>
   splitIntoChunks_loop text w ov start chunks = Some r"
proof (induction limit "text" w ov start chunks rule: splitIntoChunks_limited_loop.induct)
  case (1 limit t w ov start chunks)
  show ?case
  proof (cases "start < int (length t)")
    case False
    with "1.prems" show ?thesis
      by (subst splitIntoChunks_loop.simps, subst (asm) splitIntoChunks_limited_loop.simps) simp
  next
    case True
    show ?thesis
    proof (cases "limit \<le> length chunks")
      case full: True
      with True "1.prems" show ?thesis
        by (subst (asm) splitIntoChunks_limited_loop.simps) simp
    next
      case room: False
      show ?thesis
      proof (cases "min (start + w) (int (length t)) = int (length t)")
        case last: True
        with True room "1.prems" show ?thesis
          by (subst splitIntoChunks_loop.simps, subst (asm) splitIntoChunks_limited_loop.simps) simp
      next
        case more: False
        then have m: "min (start + w) (int (length t)) = start + w"
          and ne: "start + w \<noteq> int (length t)" by (simp_all add: min_def split: if_splits)
        from "1.prems" True room ne
        have "splitIntoChunks_limited_loop limit t w ov (start + w - ov)
                (chunks @ [js_slice t start (start + w)]) = Inr r"
          by (subst (asm) splitIntoChunks_limited_loop.simps) (simp add: m)
        with "1.IH" [OF True room more] have
          "splitIntoChunks_loop t w ov (start + w - ov) (chunks @ [js_slice t start (start + w)])
             = Some r" by (simp add: m)
        with True ne show ?thesis
          by (subst splitIntoChunks_loop.simps) (simp add: m)
      qed
    qed
  qed
qed

lemma limited_loop_degenerate:
  assumes "w \<le> ov" and "w < int (length text)" and "text \<noteq> []"
  shows "start \<le> 0 \<Longrightarrow>
         splitIntoChunks_limited_loop limit text w ov start chunks = Inl (Error ''Invalid array length'')"
proof (induction "limit - length chunks" arbitrary: start chunks rule: less_induct)
  case less
  from assms(3) less.prems have lt: "start < int (length text)" by (cases "text") simp_all
  show ?case
  proof (cases "limit \<le> length chunks")
    case True
    with lt show ?thesis by (subst splitIntoChunks_limited_loop.simps) simp
  next
    case False
    from assms less.prems have m: "min (start + w) (int (length text)) = start + w"
      and ne: "start + w \<noteq> int (length text)" by simp_all
    have "limit - length (chunks @ [js_slice text start (start + w)]) < limit - length chunks"
      using False by simp
    moreover have "start + w - ov \<le> 0" using assms(1) less.prems by simp
    ultimately have "splitIntoChunks_limited_loop limit text w ov (start + w - ov)
        (chunks @ [js_slice text start (start + w)]) = Inl (Error ''Invalid array length'')"
      by (rule less.hyps)
    with lt False ne show ?thesis
      by (subst splitIntoChunks_limited_loop.simps) (simp add: m)
  qed
qed

lemma limited_short:
  assumes "0 < limit" and "text \<noteq> []" and "int (length text) \<le> w"
  shows "splitIntoChunks_limited limit text w ov = Inr [text]"
proof -
  from assms have m: "min w (int (length text)) = int (length text)" by simp
  have "js_slice text 0 (int (length text)) = text" by (simp add: js_slice_def Let_def)
  with assms m show ?thesis
    by (simp add: splitIntoChunks_limited_def splitIntoChunks_limited_loop.simps)
qed

lemma unlimited_short:
  assumes "text \<noteq> []" and "int (length text) \<le> w"
  shows "splitIntoChunks text w ov = Some [text]"
proof -
  from assms have m: "min w (int (length text)) = int (length text)" by simp
  have "js_slice text 0 (int (length text)) = text" by (simp add: js_slice_def Let_def)
  with assms m show ?thesis
    by (simp add: splitIntoChunks_def splitIntoChunks_loop.simps)
qed

lemma loop_result_extends:
  assumes "splitIntoChunks_loop text w ov start chunks = Some r"
  shows "length chunks \<le> length r \<and> (start < int (length text) \<longrightarrow> length chunks < length r)"
proof (rule splitIntoChunks_loop.raw_induct
    [where P = "\<lambda>t w ov start chunks r.
       length chunks \<le> length r \<and> (start < int (length t) \<longrightarrow> length chunks < length r)",
      OF _ assms], goal_cases)
  case (1 f t w ov start chunks r)
  show ?case
  proof (cases "start < int (length t)")
    case False
    with 1(2) show ?thesis by simp
  next
    case True
    show ?thesis
    proof (cases "min (start + w) (int (length t)) = int (length t)")
      case last: True
      with True 1(2) show ?thesis by auto
    next
      case more: False
      then have m: "min (start + w) (int (length t)) = start + w"
        and ne: "start + w \<noteq> int (length t)" by (simp_all add: min_def split: if_splits)
      from True 1(2) ne have "f t w ov (start + w - ov)
          (chunks @ [js_slice t start (start + w)]) = Some r" by (simp add: m)
      from 1(1) [OF this] show ?thesis by simp
    qed
  qed
qed

lemma unlimited_loop_agrees:
  "splitIntoChunks_loop text w ov start chunks = Some r \<Longrightarrow> length r \<le> limit \<Longrightarrow>
   splitIntoChunks_limited_loop limit text w ov start chunks = Inr r"
proof (induction limit "text" w ov start chunks rule: splitIntoChunks_limited_loop.induct)
  case (1 limit t w ov start chunks)
  show ?case
  proof (cases "start < int (length t)")
    case False
    with "1.prems"(1) show ?thesis
      by (subst splitIntoChunks_limited_loop.simps, subst (asm) splitIntoChunks_loop.simps) simp
  next
    case True
    from loop_result_extends [OF "1.prems"(1)] True "1.prems"(2)
    have room: "\<not> limit \<le> length chunks" by simp
    show ?thesis
    proof (cases "min (start + w) (int (length t)) = int (length t)")
      case last: True
      with True room "1.prems"(1) show ?thesis
        by (subst splitIntoChunks_limited_loop.simps, subst (asm) splitIntoChunks_loop.simps) simp
    next
      case more: False
      then have m: "min (start + w) (int (length t)) = start + w"
        and ne: "start + w \<noteq> int (length t)" by (simp_all add: min_def split: if_splits)
      from "1.prems"(1) True ne
      have "splitIntoChunks_loop t w ov (start + w - ov) (chunks @ [js_slice t start (start + w)])
              = Some r"
        by (subst (asm) splitIntoChunks_loop.simps) (simp add: m)
      with "1.IH" [OF True room more] "1.prems"(2) have
        "splitIntoChunks_limited_loop limit t w ov (start + w - ov)
           (chunks @ [js_slice t start (start + w)]) = Inr r" by (simp add: m)
      with True room ne show ?thesis
        by (subst splitIntoChunks_limited_loop.simps) (simp add: m)
    qed
  qed
qed

lemma limited_loop_fits:
  "splitIntoChunks_limited_loop limit text w ov start chunks = Inr r \<Longrightarrow>
   length chunks \<le> limit \<Longrightarrow> length r \<le> limit"
proof (induction limit "text" w ov start chunks rule: splitIntoChunks_limited_loop.induct)
  case (1 limit t w ov start chunks)
  show ?case
  proof (cases "start < int (length t)")
    case False
    with "1.prems" show ?thesis
      by (subst (asm) splitIntoChunks_limited_loop.simps) simp
  next
    case True
    show ?thesis
    proof (cases "limit \<le> length chunks")
      case full: True
      with True "1.prems" show ?thesis
        by (subst (asm) splitIntoChunks_limited_loop.simps) simp
    next
      case room: False
      show ?thesis
      proof (cases "min (start + w) (int (length t)) = int (length t)")
        case last: True
        with True room "1.prems" show ?thesis
          by (subst (asm) splitIntoChunks_limited_loop.simps) auto
      next
        case more: False
        then have m: "min (start + w) (int (length t)) = start + w"
          and ne: "start + w \<noteq> int (length t)" by (simp_all add: min_def split: if_splits)
        from "1.prems"(1) True room ne
        have "splitIntoChunks_limited_loop limit t w ov (start + w - ov)
                (chunks @ [js_slice t start (start + w)]) = Inr r"
          by (subst (asm) splitIntoChunks_limited_loop.simps) (simp add: m)
        with "1.IH" [OF True room more] room show ?thesis by (simp add: m)
      qed
    qed
  qed
qed

lemma splitIntoChunks_limited_iff:
  "splitIntoChunks_limited limit text w ov = Inr r \<longleftrightarrow>
     splitIntoChunks text w ov = Some r \<and> length r \<le> limit"
  unfolding splitIntoChunks_limited_def splitIntoChunks_def
  using limited_loop_agrees [of limit "text" w ov 0 "[]" r]
        limited_loop_fits [of limit "text" w ov 0 "[]" r]
        unlimited_loop_agrees [of "text" w ov 0 "[]" r limit]
  by auto

section \<open>Properties of the chunk identifier\<close>

lemma digit_cases:
  assumes "d < (10::nat)"
  shows "d = 0 \<or> d = 1 \<or> d = 2 \<or> d = 3 \<or> d = 4 \<or> d = 5 \<or> d = 6 \<or> d = 7 \<or> d = 8 \<or> d = 9"
  using assms by arith

lemma digit_val_digit_char: "d < 10 \<Longrightarrow> digit_val (digit_char d) = d"
  using digit_cases [of d] by (auto simp: digit_val_def digit_char_def)

lemma nat_of_digits_string_of_nat: "nat_of_digits (string_of_nat n) = n"
proof (induction n rule: string_of_nat.induct)
  case (1 n)
  show ?case
  proof (cases "n < 10")
    case True
    then show ?thesis
      by (subst string_of_nat.simps) (simp add: nat_of_digits_def digit_val_digit_char)
  next
    case False
    with 1 have "nat_of_digits (string_of_nat (n div 10)) = n div 10" by simp
    with False show ?thesis
      by (subst string_of_nat.simps) (simp add: nat_of_digits_def digit_val_digit_char)
  qed
qed

lemma string_of_nat_inj: "string_of_nat m = string_of_nat n \<Longrightarrow> m = n"
  by (metis nat_of_digits_string_of_nat)

lemma digit_char_not_colon: "d < 10 \<Longrightarrow> digit_char d \<noteq> CHR '':''"
  using digit_cases [of d] by (auto simp: digit_char_def)

lemma colon_notin_string_of_nat: "CHR '':'' \<notin> set (string_of_nat n)"
proof (induction n rule: string_of_nat.induct)
  case (1 n)
  show ?case
  proof (cases "n < 10")
    case True
    then show ?thesis
      by (subst string_of_nat.simps) (simp add: digit_char_not_colon [symmetric])
  next
    case False
    with 1 have "CHR '':'' \<notin> set (string_of_nat (n div 10))" by simp
    moreover have "digit_char (n mod 10) \<noteq> CHR '':''" by (rule digit_char_not_colon) simp
    ultimately show ?thesis using False
      by (subst string_of_nat.simps) auto
  qed
qed

lemma split_at_separator:
  assumes "c \<notin> set a" "c \<notin> set b" "a @ c # x = b @ c # y"
  shows "a = b \<and> x = y"
  using assms
proof (induction a arbitrary: b)
  case Nil
  then show ?case by (cases b) auto
next
  case (Cons h a)
  then show ?case by (cases b) auto
qed

text \<open>
  The string that is hashed determines the triple when neither path contains \<open>:\<close>, and
  for two triples with the same path.
\<close>

lemma chunkIdInput_injective:
  assumes "(CHR '':'' \<notin> set p1 \<and> CHR '':'' \<notin> set p2) \<or> p1 = p2"
  shows "chunkIdInput p1 l1 c1 = chunkIdInput p2 l2 c2 \<longleftrightarrow> p1 = p2 \<and> l1 = l2 \<and> c1 = c2"
proof
  assume eq: "chunkIdInput p1 l1 c1 = chunkIdInput p2 l2 c2"
  then have full: "p1 @ CHR '':'' # (string_of_nat l1 @ CHR '':'' # c1) =
                   p2 @ CHR '':'' # (string_of_nat l2 @ CHR '':'' # c2)"
    by (simp add: chunkIdInput_def)
  have "p1 = p2 \<and> string_of_nat l1 @ CHR '':'' # c1 = string_of_nat l2 @ CHR '':'' # c2"
  proof (cases "p1 = p2")
    case True
    with full show ?thesis by simp
  next
    case False
    with assms have "CHR '':'' \<notin> set p1" and "CHR '':'' \<notin> set p2" by simp_all
    from split_at_separator [OF this full] show ?thesis .
  qed
  then have p: "p1 = p2"
    and r: "string_of_nat l1 @ CHR '':'' # c1 = string_of_nat l2 @ CHR '':'' # c2"
    by simp_all
  from split_at_separator [OF colon_notin_string_of_nat colon_notin_string_of_nat r]
  have "string_of_nat l1 = string_of_nat l2" and "c1 = c2" by simp_all
  with p show "p1 = p2 \<and> l1 = l2 \<and> c1 = c2" by (simp add: string_of_nat_inj)
next
  assume "p1 = p2 \<and> l1 = l2 \<and> c1 = c2"
  then show "chunkIdInput p1 l1 c1 = chunkIdInput p2 l2 c2" by simp
qed

section \<open>Properties of the indexer\<close>

lemma indexFile_returns: "\<exists>n s'. indexFile e s file rp = Some (n, s')"
  by (auto simp: indexFile_def splitIntoChunks_default split: option.splits sum.splits prod.splits)

lemma indexBatch_returns:
  "\<exists>results s'. indexBatch e s files rp = Some (results, s') \<and> length results = length files"
proof (induction files arbitrary: s)
  case Nil
  then show ?case by simp
next
  case (Cons f files)
  obtain n s1 where f: "indexFile e s f rp = Some (n, s1)"
    using indexFile_returns by blast
  from Cons [of s1] obtain results s2 where
    "indexBatch e s1 files rp = Some (results, s2)" "length results = length files" by blast
  with f show ?case by simp
qed

lemma fold_count: "fold (\<lambda>chunks. Suc) results p = p + length results"
  by (induction results arbitrary: p) simp_all

lemma indexCodebase_batches_returns:
  "\<exists>res s'. indexCodebase_batches e rp codeFiles i t p s = Some (res, s') \<and>
            processedFiles res = p + (length codeFiles - i)"
proof (induction e rp codeFiles i t p s rule: indexCodebase_batches.induct)
  case (1 e rp codeFiles i t p s)
  show ?case
  proof (cases "i < length codeFiles")
    case False
    then show ?thesis by (subst indexCodebase_batches.simps) simp
  next
    case True
    obtain results s1 where
      b: "indexBatch e s (take batchSize (drop i codeFiles)) rp = Some (results, s1)"
      and len: "length results = length (take batchSize (drop i codeFiles))"
      using indexBatch_returns by blast
    from 1 [OF True b refl] obtain res s' where
      r: "indexCodebase_batches e rp codeFiles (i + batchSize)
            (fold (\<lambda>chunks t. t + chunks) results t)
            (fold (\<lambda>chunks p. p + 1) results p) s1 = Some (res, s')"
      and c: "processedFiles res =
              fold (\<lambda>chunks p. p + 1) results p + (length codeFiles - (i + batchSize))"
      by blast
    have "processedFiles res = p + (length codeFiles - i)"
      using c len True by (simp add: fold_count min_def batchSize_def split: if_splits)
    with r b True show ?thesis by (subst indexCodebase_batches.simps) simp
  qed
qed

lemma collection_refl: "\<exists>col. s = s\<lparr>collection := col\<rparr>"
  by (rule exI [of _ "collection s"]) simp

lemma collection_trans:
  "s1 = s\<lparr>collection := c1\<rparr> \<Longrightarrow> s2 = s1\<lparr>collection := c2\<rparr> \<Longrightarrow> \<exists>col. s2 = s\<lparr>collection := col\<rparr>"
  by (rule exI [of _ c2]) simp

lemma indexFile_loop_collection:
  "\<exists>col. snd (indexFile_loop e rel rp chunks i n s) = s\<lparr>collection := col\<rparr>"
proof (induction chunks arbitrary: i n s)
  case Nil
  show ?case using collection_refl [of s] by simp
next
  case (Cons chunk rest)
  show ?case
  proof (cases "createEmbeddings e s [chunk]")
    case (Inl err)
    then show ?thesis using collection_refl [of s] by simp
  next
    case em: (Inr embeddings)
    show ?thesis
    proof (cases "client_upsert e s (chunkPoint e rel rp i chunk embeddings)")
      case (Inl err)
      with em show ?thesis using collection_refl [of s] by simp
    next
      case (Inr col)
      from Cons [of "i + 1" "n + 1" "s\<lparr>collection := col\<rparr>"] obtain col' where
        "snd (indexFile_loop e rel rp rest (i + 1) (n + 1) (s\<lparr>collection := col\<rparr>))
           = s\<lparr>collection := col\<rparr>\<lparr>collection := col'\<rparr>" by blast
      then have "snd (indexFile_loop e rel rp (chunk # rest) i n s) = s\<lparr>collection := col'\<rparr>"
        using Inr em by simp
      then show ?thesis by blast
    qed
  qed
qed


lemma indexFile_cases:
  "indexFile e s f rp =
     (case stat (snd f) of
        None \<Rightarrow> Some (0, s)
      | Some st \<Rightarrow>
          if st_size st > maxFileSize INDEXING_CONFIG then Some (0, s)
          else (case readFile (snd f) of
                  None \<Rightarrow> Some (0, s)
                | Some content \<Rightarrow>
                    (case indexFile_loop e (path_relative rp (fst f)) rp
                            (windows content 1000 200) 0 0 s of
                       (Inl err, s') \<Rightarrow> Some (0, s')
                     | (Inr indexedChunks, s') \<Rightarrow> Some (indexedChunks, s'))))"
  by (simp add: indexFile_def splitIntoChunks_default split: option.splits)



lemma indexFile_collection:
  assumes "indexFile e s f rp = Some (n, s')"
  shows "\<exists>col. s' = s\<lparr>collection := col\<rparr>"
proof (cases "stat (snd f)")
  case None
  with assms have "s' = s" by (simp add: indexFile_cases)
  then show ?thesis using collection_refl [of s] by simp
next
  case (Some st)
  show ?thesis
  proof (cases "st_size st > maxFileSize INDEXING_CONFIG")
    case True
    with assms Some have "s' = s" by (simp add: indexFile_cases)
    then show ?thesis using collection_refl [of s] by simp
  next
    case small: False
    show ?thesis
    proof (cases "readFile (snd f)")
      case None
      with assms Some small have "s' = s" by (simp add: indexFile_cases)
      then show ?thesis using collection_refl [of s] by simp
    next
      case content: (Some content)
      obtain r s1 where
        l: "indexFile_loop e (path_relative rp (fst f)) rp (windows content 1000 200) 0 0 s = (r, s1)"
        by (cases "indexFile_loop e (path_relative rp (fst f)) rp (windows content 1000 200) 0 0 s")
      with indexFile_loop_collection [of e "path_relative rp (fst f)" rp "windows content 1000 200" 0 0 s]
      obtain col where c: "s1 = s\<lparr>collection := col\<rparr>" by auto
      from assms Some small content l have "s' = s1"
        by (cases r) (simp_all add: indexFile_cases)
      with c show ?thesis by blast
    qed
  qed
qed

lemma indexBatch_collection:
  "indexBatch e s files rp = Some (results, s') \<Longrightarrow> \<exists>col. s' = s\<lparr>collection := col\<rparr>"
proof (induction files arbitrary: s results)
  case Nil
  then show ?case using collection_refl [of s] by simp
next
  case (Cons f files)
  from Cons.prems obtain n s1 rs where
    f: "indexFile e s f rp = Some (n, s1)" and r: "indexBatch e s1 files rp = Some (rs, s')"
    by (auto split: option.splits prod.splits)
  from indexFile_collection [OF f] obtain c1 where c1: "s1 = s\<lparr>collection := c1\<rparr>" by blast
  from Cons.IH [OF r] obtain c2 where "s' = s1\<lparr>collection := c2\<rparr>" by blast
  with c1 show ?case by (rule collection_trans)
qed

lemma indexCodebase_batches_collection:
  "indexCodebase_batches e rp codeFiles i t p s = Some (res, s') \<Longrightarrow>
   \<exists>col. s' = s\<lparr>collection := col\<rparr>"
proof (induction e rp codeFiles i t p s rule: indexCodebase_batches.induct)
  case (1 e rp codeFiles i t p s)
  show ?case
  proof (cases "i < length codeFiles")
    case False
    with "1.prems" have "s' = s" by (subst (asm) indexCodebase_batches.simps) simp
    then show ?thesis using collection_refl [of s] by simp
  next
    case True
    with "1.prems" obtain results s1 where
      b: "indexBatch e s (take batchSize (drop i codeFiles)) rp = Some (results, s1)"
      and r: "indexCodebase_batches e rp codeFiles (i + batchSize)
            (fold (\<lambda>chunks t. t + chunks) results t)
            (fold (\<lambda>chunks p. p + 1) results p) s1 = Some (res, s')"
      by (subst (asm) indexCodebase_batches.simps) (auto split: option.splits prod.splits)
    from indexBatch_collection [OF b] obtain c1 where c1: "s1 = s\<lparr>collection := c1\<rparr>" by blast
    from "1.IH" [OF True b refl r] obtain c2 where "s' = s1\<lparr>collection := c2\<rparr>" by blast
    with c1 show ?thesis by (rule collection_trans)
  qed
qed


lemma initializeQdrant_state:
  "snd (initializeQdrant e s) = s\<lparr>qdrantClient := True\<rparr>"
  by (cases "qdrantClient s")
     (simp_all add: initializeQdrant_def Let_def split: sum.splits option.splits)

lemma initializeOpenAI_state:
  "\<exists>b. initializeOpenAI c s = s\<lparr>openaiClient := b\<rparr>"
proof (cases "\<not> openaiClient s \<and> truthy (cfg_openaiApiKey c)")
  case True
  then show ?thesis by (simp add: initializeOpenAI_def) blast
next
  case False
  then have "initializeOpenAI c s = s\<lparr>openaiClient := openaiClient s\<rparr>"
    by (simp add: initializeOpenAI_def)
  then show ?thesis by blast
qed

lemma indexCodebase_try_cases:
  "\<exists>r s'. indexCodebase_try e rp s = Some (r, s') \<and>
     isIndexing s' = isIndexing s \<and>
     (case r of
        Inl err \<Rightarrow> fst (initializeQdrant e s) = Inl err \<and> indexedCodebases s' = indexedCodebases s
      | Inr res \<Rightarrow> fst (initializeQdrant e s) = Inr () \<and>
                   processedFiles res = length (codeFilesOf e rp) \<and>
                   indexedCodebases s' = insert rp (indexedCodebases s))"
proof (cases "fst (initializeQdrant e s)")
  case (Inl err)
  then have "initializeQdrant e s = (Inl err, s\<lparr>qdrantClient := True\<rparr>)"
    using initializeQdrant_state [of e s] by (cases "initializeQdrant e s") simp
  then show ?thesis by (simp add: indexCodebase_try_def)
next
  case (Inr u)
  then have q: "initializeQdrant e s = (Inr (), s\<lparr>qdrantClient := True\<rparr>)"
    using initializeQdrant_state [of e s] by (cases "initializeQdrant e s") simp
  obtain b where o: "initializeOpenAI (loadConfig e) (s\<lparr>qdrantClient := True\<rparr>)
                      = s\<lparr>qdrantClient := True\<rparr>\<lparr>openaiClient := b\<rparr>"
    using initializeOpenAI_state by blast
  obtain res s3 where
    r: "indexCodebase_batches e rp (codeFilesOf e rp) 0 0 0
          (s\<lparr>qdrantClient := True\<rparr>\<lparr>openaiClient := b\<rparr>) = Some (res, s3)"
    and p: "processedFiles res = 0 + (length (codeFilesOf e rp) - 0)"
    using indexCodebase_batches_returns by blast
  from indexCodebase_batches_collection [OF r] obtain col where
    s3: "s3 = s\<lparr>qdrantClient := True\<rparr>\<lparr>openaiClient := b\<rparr>\<lparr>collection := col\<rparr>" by blast
  have "indexCodebase_try e rp s =
          Some (Inr res, s3\<lparr>indexedCodebases := insert rp (indexedCodebases s3)\<rparr>)"
    using q o r by (simp add: indexCodebase_try_def Let_def)
  with p s3 Inr show ?thesis by simp
qed

lemma indexCodebase_settle_cases:
  "\<exists>r s'. indexCodebase_settle e rp s = Some (r, s') \<and>
     \<not> isIndexing s' \<and>
     (case r of
        Inl err \<Rightarrow> fst (initializeQdrant e s) = Inl err \<and> indexedCodebases s' = indexedCodebases s
      | Inr res \<Rightarrow> fst (initializeQdrant e s) = Inr () \<and>
                   processedFiles res = length (codeFilesOf e rp) \<and>
                   indexedCodebases s' = insert rp (indexedCodebases s))"
proof -
  from indexCodebase_try_cases [of e rp s] obtain r s1 where
    t: "indexCodebase_try e rp s = Some (r, s1)"
    and c: "case r of
        Inl err \<Rightarrow> fst (initializeQdrant e s) = Inl err \<and> indexedCodebases s1 = indexedCodebases s
      | Inr res \<Rightarrow> fst (initializeQdrant e s) = Inr () \<and>
                   processedFiles res = length (codeFilesOf e rp) \<and>
                   indexedCodebases s1 = insert rp (indexedCodebases s)"
    by blast
  from t have "indexCodebase_settle e rp s = Some (r, s1\<lparr>isIndexing := False\<rparr>)"
    by (simp add: indexCodebase_settle_def)
  moreover have "\<not> isIndexing (s1\<lparr>isIndexing := False\<rparr>)" by simp
  moreover from c have "case r of
        Inl err \<Rightarrow> fst (initializeQdrant e s) = Inl err \<and>
                   indexedCodebases (s1\<lparr>isIndexing := False\<rparr>) = indexedCodebases s
      | Inr res \<Rightarrow> fst (initializeQdrant e s) = Inr () \<and>
                   processedFiles res = length (codeFilesOf e rp) \<and>
                   indexedCodebases (s1\<lparr>isIndexing := False\<rparr>) = insert rp (indexedCodebases s)"
    by (cases r) simp_all
  ultimately show ?thesis by blast
qed

lemma clearIndex_state:
  "isIndexing (snd (clearIndex e s param)) = isIndexing s \<and>
   indexedCodebases (snd (clearIndex e s param)) =
     (case (decodeURIComponent e param, fst (clearIndex e s param)) of
        (Some p, Inr msg) \<Rightarrow> indexedCodebases s - {p}
      | _ \<Rightarrow> indexedCodebases s)"
proof (cases "decodeURIComponent e param")
  case None
  then show ?thesis by (simp add: clearIndex_def)
next
  case (Some p)
  obtain r s1 where i: "(if \<not> qdrantClient s then initializeQdrant e s else (Inr (), s)) = (r, s1)"
    by (cases "if \<not> qdrantClient s then initializeQdrant e s else (Inr (), s)")
  have s1: "isIndexing s1 = isIndexing s \<and> indexedCodebases s1 = indexedCodebases s"
  proof (cases "qdrantClient s")
    case True
    with i show ?thesis by simp
  next
    case False
    with i have "s1 = snd (initializeQdrant e s)" by (metis snd_conv)
    then show ?thesis by (simp add: initializeQdrant_state)
  qed
  show ?thesis
  proof (cases r)
    case (Inl err)
    with Some i s1 show ?thesis by (simp add: clearIndex_def)
  next
    case (Inr u)
    with Some i s1 show ?thesis
      by (cases "qdrant_delete e (collection s1) [(''codebasePath'', p)]")
         (simp_all add: clearIndex_def)
  qed
qed

lemma searchCodebase_state:
  "isIndexing (snd (searchCodebase e s q path limit)) = isIndexing s \<and>
   indexedCodebases (snd (searchCodebase e s q path limit)) = indexedCodebases s"
proof -
  obtain r s1 where i: "initializeQdrant e s = (r, s1)" by (cases "initializeQdrant e s")
  then have "s1 = snd (initializeQdrant e s)" by simp
  then have s1: "s1 = s\<lparr>qdrantClient := True\<rparr>" by (simp add: initializeQdrant_state)
  obtain b where o: "initializeOpenAI (loadConfig e) s1 = s1\<lparr>openaiClient := b\<rparr>"
    using initializeOpenAI_state by blast
  show ?thesis
    using i s1 o
    by (cases r) (simp_all add: searchCodebase_def Let_def split: sum.splits)
qed

lemma indexFile_loop_append:
  "indexFile_loop e rel rp xs i n s = (Inr n', s') \<Longrightarrow>
   indexFile_loop e rel rp (xs @ ys) i n s = indexFile_loop e rel rp ys (i + length xs) n' s'"
proof (induction xs arbitrary: i n s)
  case Nil
  then show ?case by simp
next
  case (Cons x xs)
  show ?case
  proof (cases "createEmbeddings e s [x]")
    case (Inl err)
    with Cons.prems show ?thesis by simp
  next
    case em: (Inr embeddings)
    show ?thesis
    proof (cases "client_upsert e s (chunkPoint e rel rp i x embeddings)")
      case (Inl err)
      with em Cons.prems show ?thesis by simp
    next
      case (Inr col)
      with em Cons.prems
      have "indexFile_loop e rel rp xs (i + 1) (n + 1) (s\<lparr>collection := col\<rparr>) = (Inr n', s')"
        by simp
      from Cons.IH [OF this] Inr em show ?thesis by simp
    qed
  qed
qed

lemma indexFile_loop_fails:
  assumes "chunk_fails e s rel rp i c"
  shows "\<exists>err. indexFile_loop e rel rp (c # post) i n s = (Inl err, s)"
  using assms by (auto simp: chunk_fails_def split: sum.splits)

lemma point_vector_chunkPoint:
  "point_vector (chunkPoint e rel rp i c (v # vs)) = Some v"
  by (simp add: chunkPoint_def Let_def)

section \<open>Properties of the retriever and of the points that indexing adds\<close>

lemma adds_only_root_refl: "collection s' = collection s \<Longrightarrow> adds_only_root rp s s'"
  by (simp add: adds_only_root_def)

lemma adds_only_root_trans:
  "adds_only_root rp s s1 \<Longrightarrow> adds_only_root rp s1 s2 \<Longrightarrow> adds_only_root rp s s2"
  by (auto simp: adds_only_root_def)

lemma client_upsert_points:
  "client_upsert e s pt = Inr col' \<Longrightarrow> set col' \<subseteq> insert pt (set (collection s))"
  by (auto simp: client_upsert_def qdrant_upsert_def split: option.splits if_splits)

lemma chunkPoint_root: "codebasePath (payload (chunkPoint e rel rp i c em)) = rp"
  by (simp add: chunkPoint_def Let_def)

lemma indexFile_loop_points:
  "adds_only_root rp s (snd (indexFile_loop e rel rp chunks i n s))"
proof (induction chunks arbitrary: i n s)
  case Nil
  show ?case by (simp add: adds_only_root_refl)
next
  case (Cons chunk rest)
  show ?case
  proof (cases "createEmbeddings e s [chunk]")
    case (Inl err)
    then show ?thesis by (simp add: adds_only_root_refl)
  next
    case em: (Inr embeddings)
    show ?thesis
    proof (cases "client_upsert e s (chunkPoint e rel rp i chunk embeddings)")
      case (Inl err)
      with em show ?thesis by (simp add: adds_only_root_refl)
    next
      case (Inr col)
      from client_upsert_points [OF Inr]
      have "adds_only_root rp s (s\<lparr>collection := col\<rparr>)"
        by (auto simp: adds_only_root_def chunkPoint_root)
      from adds_only_root_trans
        [OF this Cons [where s = "s\<lparr>collection := col\<rparr>" and i = "i + 1" and n = "n + 1"]]
      show ?thesis using Inr em by simp
    qed
  qed
qed

lemma indexFile_points:
  assumes "indexFile e s f rp = Some (n, s')"
  shows "adds_only_root rp s s'"
proof (cases "stat (snd f)")
  case None
  with assms have "s' = s" by (simp add: indexFile_cases)
  then show ?thesis by (simp add: adds_only_root_refl)
next
  case (Some st)
  show ?thesis
  proof (cases "st_size st > maxFileSize INDEXING_CONFIG")
    case True
    with assms Some have "s' = s" by (simp add: indexFile_cases)
    then show ?thesis by (simp add: adds_only_root_refl)
  next
    case small: False
    show ?thesis
    proof (cases "readFile (snd f)")
      case None
      with assms Some small have "s' = s" by (simp add: indexFile_cases)
      then show ?thesis by (simp add: adds_only_root_refl)
    next
      case content: (Some content)
      obtain r s1 where
        l: "indexFile_loop e (path_relative rp (fst f)) rp (windows content 1000 200) 0 0 s = (r, s1)"
        by (cases "indexFile_loop e (path_relative rp (fst f)) rp (windows content 1000 200) 0 0 s")
      with indexFile_loop_points [of rp s e "path_relative rp (fst f)" "windows content 1000 200" 0 0]
      have c: "adds_only_root rp s s1" by simp
      from assms Some small content l have "s' = s1"
        by (cases r) (simp_all add: indexFile_cases)
      with c show ?thesis by simp
    qed
  qed
qed

lemma indexBatch_points:
  "indexBatch e s files rp = Some (results, s') \<Longrightarrow> adds_only_root rp s s'"
proof (induction files arbitrary: s results)
  case Nil
  then show ?case by (simp add: adds_only_root_refl)
next
  case (Cons f files)
  from Cons.prems obtain n s1 rs where
    f: "indexFile e s f rp = Some (n, s1)" and r: "indexBatch e s1 files rp = Some (rs, s')"
    by (auto split: option.splits prod.splits)
  from adds_only_root_trans [OF indexFile_points [OF f] Cons.IH [OF r]] show ?case .
qed

lemma indexCodebase_batches_points:
  "indexCodebase_batches e rp codeFiles i t p s = Some (res, s') \<Longrightarrow> adds_only_root rp s s'"
proof (induction e rp codeFiles i t p s rule: indexCodebase_batches.induct)
  case (1 e rp codeFiles i t p s)
  show ?case
  proof (cases "i < length codeFiles")
    case False
    with "1.prems" have "s' = s" by (subst (asm) indexCodebase_batches.simps) simp
    then show ?thesis by (simp add: adds_only_root_refl)
  next
    case True
    with "1.prems" obtain results s1 where
      b: "indexBatch e s (take batchSize (drop i codeFiles)) rp = Some (results, s1)"
      and r: "indexCodebase_batches e rp codeFiles (i + batchSize)
            (fold (\<lambda>chunks t. t + chunks) results t)
            (fold (\<lambda>chunks p. p + 1) results p) s1 = Some (res, s')"
      by (subst (asm) indexCodebase_batches.simps) (auto split: option.splits prod.splits)
    from adds_only_root_trans [OF indexBatch_points [OF b] "1.IH" [OF True b refl r]]
    show ?thesis .
  qed
qed

lemma indexCodebase_settle_points:
  assumes "indexCodebase_settle e rp s = Some (r, s')"
  shows "adds_only_root rp s s'"
proof -
  from assms obtain s1 where t: "indexCodebase_try e rp s = Some (r, s1)"
    and s': "s' = s1\<lparr>isIndexing := False\<rparr>"
    by (auto simp: indexCodebase_settle_def split: option.splits prod.splits)
  obtain q sq where i: "initializeQdrant e s = (q, sq)" by (cases "initializeQdrant e s")
  then have "sq = snd (initializeQdrant e s)" by simp
  then have sq: "sq = s\<lparr>qdrantClient := True\<rparr>" by (simp add: initializeQdrant_state)
  have "adds_only_root rp s s1"
  proof (cases q)
    case (Inl err)
    with t i have "s1 = sq" by (simp add: indexCodebase_try_def)
    with sq show ?thesis by (simp add: adds_only_root_refl)
  next
    case (Inr u)
    obtain b where o: "initializeOpenAI (loadConfig e) sq = sq\<lparr>openaiClient := b\<rparr>"
      using initializeOpenAI_state by blast
    from t i Inr o obtain res s3 where
      r: "indexCodebase_batches e rp (codeFilesOf e rp) 0 0 0 (sq\<lparr>openaiClient := b\<rparr>) = Some (res, s3)"
      and s1: "s1 = s3\<lparr>indexedCodebases := insert rp (indexedCodebases s3)\<rparr>"
      by (auto simp: indexCodebase_try_def Let_def split: option.splits prod.splits)
    from indexCodebase_batches_points [OF r] sq s1 show ?thesis
      by (simp add: adds_only_root_def)
  qed
  with s' show ?thesis by (simp add: adds_only_root_def)
qed

lemma map_filter_member:
  "y \<in> set (List.map_filter g xs) \<Longrightarrow> \<exists>x \<in> set xs. g x = Some y"
  by (induction xs) (auto split: option.splits)

lemma qdrant_search_matches:
  assumes "qdrant_search e col qv flt limit th = Inr rs" and "r \<in> set rs"
  shows "matches flt (scored_payload r)"
proof -
  from assms(1) obtain q where
    rs: "rs = take limit (sort_key (\<lambda>r. - score r) (filter (\<lambda>r. th \<le> score r)
              (List.map_filter (score_point e q) (filter (\<lambda>p. matches flt (payload p)) col))))"
    by (auto simp: qdrant_search_def split: option.splits)
  from assms(2) have "r \<in> set (sort_key (\<lambda>r. - score r) (filter (\<lambda>r. th \<le> score r)
              (List.map_filter (score_point e q) (filter (\<lambda>p. matches flt (payload p)) col))))"
    unfolding rs by (rule in_set_takeD)
  then have "r \<in> set (List.map_filter (score_point e q) (filter (\<lambda>p. matches flt (payload p)) col))"
    by simp
  from map_filter_member [OF this]
  obtain p where "p \<in> set col" "matches flt (payload p)" "score_point e q p = Some r"
    by auto
  then show ?thesis by (auto simp: score_point_def split: option.splits)
qed

lemma searchCodebase_scoped:
  assumes "searchCodebase e s q (Some p) limit = (Inr results, s')" and "p \<noteq> []"
    and "r \<in> set results"
  shows "res_codebasePath r = p"
proof -
  obtain iq sq where i: "initializeQdrant e s = (iq, sq)" by (cases "initializeQdrant e s")
  define s2 where "s2 = initializeOpenAI (loadConfig e) sq"
  from assms(1) i obtain embeddings searchResult where
    sr: "qdrant_search e (collection s2) (case embeddings of [] \<Rightarrow> None | v # vs \<Rightarrow> Some v)
           (searchFilter (Some p)) limit score_threshold_default = Inr searchResult"
    and res: "results = map (\<lambda>pt. \<lparr> res_score = score pt,
                                     res_filePath = filePath (scored_payload pt),
                                     res_codeChunk = codeChunk (scored_payload pt),
                                     res_startLine = startLine (scored_payload pt),
                                     res_endLine = endLine (scored_payload pt),
                                     res_codebasePath = codebasePath (scored_payload pt) \<rparr>)
                          searchResult"
    by (auto simp: searchCodebase_def Let_def s2_def split: sum.splits prod.splits)
  from assms(3) res obtain pt where pt: "pt \<in> set searchResult"
    and r: "res_codebasePath r = codebasePath (scored_payload pt)" by auto
  from qdrant_search_matches [OF sr pt] assms(2)
  have "codebasePath (scored_payload pt) = p" by (simp add: matches_def)
  with r show ?thesis by simp
qed

section \<open>Properties of the context assembler\<close>

lemma unreadable_root_parts:
  assumes "readdir node = None"
  shows "getDirectoryStructure node p d c = []" and "getKeyFiles node p = []"
    and "getAllFiles node p acc = acc"
  using assms by (cases node; simp add: getKeyFiles_def)+

section \<open>Properties of the server over time\<close>

lemma indexed_after_Cons:
  "indexed_after S (out # outs) = indexed_after (indexed_after S [out]) outs"
  by (cases "(S, out # outs)" rule: indexed_after.cases) simp_all

lemma run_Cons_snd: "snd (run sys (ev # evs)) = snd (run (snd (step sys ev)) evs)"
  by (simp split: prod.splits)

lemma run_Cons_fst:
  "fst (run sys (ev # evs)) = fst (step sys ev) # fst (run (snd (step sys ev)) evs)"
  by (simp split: prod.splits)

lemma step_IndexCall_busy:
  assumes "isIndexing (srv sys)"
  shows "step sys (IndexCall path) = (IndexRejected (Error ''Indexing already in progress''), sys)"
  using assms by (simp add: indexCodebase_begin_def)

lemma step_IndexCall_idle:
  assumes "\<not> isIndexing (srv sys)" and "p \<noteq> []"
  shows "step sys (IndexCall (Some p)) =
           (IndexStarted p, sys\<lparr>srv := (srv sys)\<lparr>isIndexing := True\<rparr>, inflight := Some p\<rparr>)"
  using assms by (simp add: indexCodebase_begin_def)

lemma step_IndexSettle:
  assumes "inflight sys = Some rp"
  shows "\<exists>r s'. step sys (IndexSettle e) = (IndexSettled rp r, sys\<lparr>srv := s', inflight := None\<rparr>) \<and>
           indexCodebase_settle e rp (srv sys) = Some (r, s') \<and> \<not> isIndexing s'"
proof -
  from indexCodebase_settle_cases [of e rp "srv sys"] obtain r s' where
    "indexCodebase_settle e rp (srv sys) = Some (r, s')" "\<not> isIndexing s'" by blast
  with assms show ?thesis by simp
qed

lemma step_invariant:
  assumes "isIndexing (srv sys) \<longleftrightarrow> inflight sys \<noteq> None"
  shows "isIndexing (srv (snd (step sys ev))) \<longleftrightarrow> inflight (snd (step sys ev)) \<noteq> None"
proof (cases ev)
  case (IndexCall path)
  show ?thesis
  proof (cases "indexCodebase_begin (srv sys) path")
    case (Inl err)
    with IndexCall assms show ?thesis by simp
  next
    case (Inr s1)
    then have "isIndexing s1" by (auto simp: indexCodebase_begin_def split: if_splits)
    with Inr IndexCall show ?thesis by (simp add: Let_def)
  qed
next
  case (IndexSettle e)
  show ?thesis
  proof (cases "inflight sys")
    case None
    with IndexSettle assms show ?thesis by simp
  next
    case (Some rp)
    from step_IndexSettle [OF Some, of e] IndexSettle show ?thesis by auto
  qed
next
  case (ClearCall param e)
  with assms clearIndex_state [of e "srv sys" param] show ?thesis
    by (cases "clearIndex e (srv sys) param") simp
next
  case (SearchCall q path limit e)
  with assms searchCodebase_state [of e "srv sys" q path limit] show ?thesis
    by (cases "searchCodebase e (srv sys) q path limit") simp
qed

lemma run_invariant:
  assumes "isIndexing (srv sys) \<longleftrightarrow> inflight sys \<noteq> None"
  shows "isIndexing (srv (snd (run sys evs))) \<longleftrightarrow> inflight (snd (run sys evs)) \<noteq> None"
  using assms
proof (induction evs arbitrary: sys)
  case Nil
  then show ?case by simp
next
  case (Cons ev evs)
  from step_invariant [OF Cons.prems, of ev]
  have "isIndexing (srv (snd (step sys ev))) \<longleftrightarrow> inflight (snd (step sys ev)) \<noteq> None" .
  from Cons.IH [OF this] show ?case
    unfolding run_Cons_snd .
qed

lemma step_indexed:
  "indexedCodebases (srv (snd (step sys ev))) =
     indexed_after (indexedCodebases (srv sys)) [fst (step sys ev)]"
proof (cases ev)
  case (IndexCall path)
  then show ?thesis
    by (cases "indexCodebase_begin (srv sys) path")
       (auto simp: indexCodebase_begin_def Let_def split: if_splits)
next
  case (IndexSettle e)
  show ?thesis
  proof (cases "inflight sys")
    case None
    with IndexSettle show ?thesis by simp
  next
    case (Some rp)
    from indexCodebase_settle_cases [of e rp "srv sys"] obtain r s' where
      s: "indexCodebase_settle e rp (srv sys) = Some (r, s')"
      and c: "case r of
          Inl err \<Rightarrow> fst (initializeQdrant e (srv sys)) = Inl err \<and>
                     indexedCodebases s' = indexedCodebases (srv sys)
        | Inr res \<Rightarrow> fst (initializeQdrant e (srv sys)) = Inr () \<and>
                     processedFiles res = length (codeFilesOf e rp) \<and>
                     indexedCodebases s' = insert rp (indexedCodebases (srv sys))"
      by blast
    from c s Some IndexSettle show ?thesis by (cases r) simp_all
  qed
next
  case (ClearCall param e)
  obtain r s1 where c: "clearIndex e (srv sys) param = (r, s1)"
    by (cases "clearIndex e (srv sys) param")
  with clearIndex_state [of e "srv sys" param] ClearCall show ?thesis
    by (cases "decodeURIComponent e param"; cases r) simp_all
next
  case (SearchCall q path limit e)
  with searchCodebase_state [of e "srv sys" q path limit] show ?thesis
    by (cases "searchCodebase e (srv sys) q path limit") simp
qed

lemma run_indexed:
  "indexedCodebases (srv (snd (run sys evs))) =
     indexed_after (indexedCodebases (srv sys)) (fst (run sys evs))"
proof (induction evs arbitrary: sys)
  case Nil
  then show ?case by simp
next
  case (Cons ev evs)
  have "indexedCodebases (srv (snd (run (snd (step sys ev)) evs))) =
      indexed_after (indexed_after (indexedCodebases (srv sys)) [fst (step sys ev)])
        (fst (run (snd (step sys ev)) evs))"
    using Cons [of "snd (step sys ev)"] step_indexed [of sys ev] by simp
  then show ?case
    unfolding run_Cons_snd run_Cons_fst
      indexed_after_Cons [of _ "fst (step sys ev)" "fst (run (snd (step sys ev)) evs)"] .
qed

lemma settled_split_Cons:
  "(\<exists>pre post res. out # outs = pre @ IndexSettled x (Inr res) # post \<and> P post) \<longleftrightarrow>
   ((\<exists>res. out = IndexSettled x (Inr res)) \<and> P outs) \<or>
   (\<exists>pre post res. outs = pre @ IndexSettled x (Inr res) # post \<and> P post)"
  (is "?L \<longleftrightarrow> ?A \<or> ?B")
proof
  assume ?L
  then obtain pre post res where d: "out # outs = pre @ IndexSettled x (Inr res) # post" and p: "P post"
    by blast
  show "?A \<or> ?B"
  proof (cases pre)
    case Nil
    with d p show ?thesis by simp
  next
    case (Cons a pre')
    with d have "outs = pre' @ IndexSettled x (Inr res) # post" by simp
    with p show ?thesis by blast
  qed
next
  assume "?A \<or> ?B"
  then show ?L
  proof
    assume ?A
    then obtain res where "out # outs = [] @ IndexSettled x (Inr res) # outs" and "P outs" by auto
    then show ?L by blast
  next
    assume ?B
    then obtain pre post res where "outs = pre @ IndexSettled x (Inr res) # post" and p: "P post"
      by blast
    then have "out # outs = (out # pre) @ IndexSettled x (Inr res) # post" by simp
    with p show ?L by blast
  qed
qed

lemma indexed_after_single:
  "x \<in> indexed_after S [out] \<longleftrightarrow>
     (x \<in> S \<and> (\<forall>msg. out \<noteq> ClearDone (Some x) (Inr msg))) \<or> (\<exists>res. out = IndexSettled x (Inr res))"
  by (cases "(S, [out])" rule: indexed_after.cases) auto

lemma indexed_after_iff:
  "x \<in> indexed_after S outs \<longleftrightarrow>
     (x \<in> S \<and> (\<forall>msg. ClearDone (Some x) (Inr msg) \<notin> set outs)) \<or>
     (\<exists>pre post res. outs = pre @ IndexSettled x (Inr res) # post \<and>
                      (\<forall>msg. ClearDone (Some x) (Inr msg) \<notin> set post))"
proof (induction outs arbitrary: S)
  case Nil
  then show ?case by simp
next
  case (Cons out outs)
  have "x \<in> indexed_after S (out # outs) \<longleftrightarrow> x \<in> indexed_after (indexed_after S [out]) outs"
    using indexed_after_Cons [of S out outs] by simp
  also have "\<dots> \<longleftrightarrow>
     (x \<in> indexed_after S [out] \<and> (\<forall>msg. ClearDone (Some x) (Inr msg) \<notin> set outs)) \<or>
     (\<exists>pre post res. outs = pre @ IndexSettled x (Inr res) # post \<and>
                      (\<forall>msg. ClearDone (Some x) (Inr msg) \<notin> set post))"
    by (rule Cons.IH)
  also have "\<dots> \<longleftrightarrow>
     (x \<in> S \<and> (\<forall>msg. ClearDone (Some x) (Inr msg) \<notin> set (out # outs))) \<or>
     (\<exists>pre post res. out # outs = pre @ IndexSettled x (Inr res) # post \<and>
                      (\<forall>msg. ClearDone (Some x) (Inr msg) \<notin> set post))"
    unfolding settled_split_Cons indexed_after_single by auto
  finally show ?case .
qed

lemma step_ClearCall_effect:
  assumes "decodeURIComponent e param = Some p"
  shows "if (qdrantClient (srv sys) \<or> fst (initializeQdrant e (srv sys)) = Inr ()) \<and> delete_fault e = None
         then fst (step sys (ClearCall param e)) = ClearDone (Some p) (Inr (''Index cleared for: '' @ p)) \<and>
              indexedCodebases (srv (snd (step sys (ClearCall param e)))) = indexedCodebases (srv sys) - {p} \<and>
              collection (srv (snd (step sys (ClearCall param e)))) =
                filter (\<lambda>pt. codebasePath (payload pt) \<noteq> p) (collection (srv sys))
         else (\<exists>err. fst (step sys (ClearCall param e)) = ClearDone (Some p) (Inl err)) \<and>
              indexedCodebases (srv (snd (step sys (ClearCall param e)))) = indexedCodebases (srv sys) \<and>
              collection (srv (snd (step sys (ClearCall param e)))) = collection (srv sys)"
proof (cases "qdrantClient (srv sys)")
  case True
  with assms show ?thesis
    by (cases "delete_fault e") (simp_all add: clearIndex_def qdrant_delete_def matches_def)
next
  case False
  obtain r s1 where i: "initializeQdrant e (srv sys) = (r, s1)"
    by (cases "initializeQdrant e (srv sys)")
  then have "s1 = snd (initializeQdrant e (srv sys))" by simp
  then have s1: "s1 = (srv sys)\<lparr>qdrantClient := True\<rparr>" by (simp add: initializeQdrant_state)
  show ?thesis
  proof (cases r)
    case (Inl err)
    with assms False i s1 show ?thesis by (simp add: clearIndex_def)
  next
    case (Inr u)
    with assms False i s1 show ?thesis
      by (cases "delete_fault e") (simp_all add: clearIndex_def qdrant_delete_def matches_def)
  qed
qed

lemma step_IndexSettle_effect:
  assumes "inflight sys = Some rp"
  shows "case fst (initializeQdrant e (srv sys)) of
           Inr u \<Rightarrow> (\<exists>res. fst (step sys (IndexSettle e)) = IndexSettled rp (Inr res)) \<and>
                    indexedCodebases (srv (snd (step sys (IndexSettle e)))) =
                      insert rp (indexedCodebases (srv sys))
         | Inl err \<Rightarrow> fst (step sys (IndexSettle e)) = IndexSettled rp (Inl err) \<and>
                      indexedCodebases (srv (snd (step sys (IndexSettle e)))) =
                        indexedCodebases (srv sys)"
proof -
  from indexCodebase_settle_cases [of e rp "srv sys"] obtain r s' where
    s: "indexCodebase_settle e rp (srv sys) = Some (r, s')"
    and c: "case r of
        Inl err \<Rightarrow> fst (initializeQdrant e (srv sys)) = Inl err \<and>
                   indexedCodebases s' = indexedCodebases (srv sys)
      | Inr res \<Rightarrow> fst (initializeQdrant e (srv sys)) = Inr () \<and>
                   processedFiles res = length (codeFilesOf e rp) \<and>
                   indexedCodebases s' = insert rp (indexedCodebases (srv sys))"
    by blast
  from c s assms show ?thesis by (cases r) simp_all
qed

section \<open>The example environments, evaluated\<close>

lemma example_env_fields:
  "config_file example_env = Some example_config"
  "fs example_env = example_fs"
  "now example_env = ''2024-01-01T00:00:00.000Z''"
  "md5_hex example_env = (\<lambda>s. s)"
  "decodeURIComponent example_env = Some"
  "toFixed3 example_env = (\<lambda>r. ''0.900'')"
  "embed example_env = (\<lambda>t. Inr [1])"
  "getCollections example_env = Inr []"
  "createCollection example_env = None"
  "upsert_fault example_env = (\<lambda>p. None)"
  "search_fault example_env = None"
  "delete_fault example_env = None"
  "similarity example_env = (\<lambda>q v. 9 / 10)"
  "persona_instructions example_env = (\<lambda>p. [])"
  "llm example_env = (\<lambda>c p. Inr ''answer'')"
  by (simp_all add: example_env_def)

lemma codeFilesOf_example_c:
  "codeFilesOf example_env ''/c'' =
     [(''/c/big.js'', File 2000000 (Some ''x'')), (''/c/locked.py'', File 10 None)]"
  by (simp add: codeFilesOf_def example_env_fields example_fs_def startsWith_def path_join_def
      extname_def basename_def CODE_EXTENSIONS_def Let_def)

lemma indexCodebase_settle_example_c:
  "indexCodebase_settle example_env ''/c'' (initial_server\<lparr>isIndexing := True\<rparr>) =
     Some (Inr \<lparr> totalChunks = 0, processedFiles = 2 \<rparr>,
           initial_server\<lparr>qdrantClient := True, openaiClient := True,
                            indexedCodebases := {''/c''}\<rparr>)"
  by (simp add: indexCodebase_settle_def indexCodebase_try_def codeFilesOf_example_c
      indexCodebase_batches.simps batchSize_def indexFile_cases INDEXING_CONFIG_def
      initializeQdrant_def initializeOpenAI_def loadConfig_def example_env_fields
      example_config_def initial_server_def collectionName_def Let_def)

lemma indexCodebase_settle_unreachable:
  "indexCodebase_settle unreachable_store_env ''/a'' (initial_server\<lparr>isIndexing := True\<rparr>) =
     Some (Inl (Error ''connect ECONNREFUSED''), initial_server\<lparr>qdrantClient := True\<rparr>)"
  by (simp add: indexCodebase_settle_def indexCodebase_try_def initializeQdrant_def
      unreachable_store_env_def example_env_def initial_server_def)

lemma codeFilesOf_example_a:
  "codeFilesOf example_env ''/a'' = [(''/a/main.js'', File 14 (Some ''console.log(1)''))]"
  by (simp add: codeFilesOf_def example_env_fields example_fs_def startsWith_def path_join_def
      extname_def basename_def CODE_EXTENSIONS_def Let_def)

lemma codeFilesOf_example_b:
  "codeFilesOf example_env ''/b'' = [(''/b/lib.py'', File 8 (Some ''print(2)''))]"
  by (simp add: codeFilesOf_def example_env_fields example_fs_def startsWith_def path_join_def
      extname_def basename_def CODE_EXTENSIONS_def Let_def)

lemma windows_short: "text \<noteq> [] \<Longrightarrow> int (length text) \<le> w \<Longrightarrow> windows text w ov = [text]"
  by (simp add: windows_def chunk_count_def)

lemma indexed_ab_value:
  "indexed_ab =
     \<lparr> qdrantClient = True, openaiClient = True, isIndexing = False,
       indexedCodebases = {''/b'', ''/a''},
       collection =
         [\<lparr> point_id = ''main.js:1:console.log(1)'', point_vector = Some [1],
            payload = \<lparr> filePath = ''main.js'', codeChunk = ''console.log(1)'', startLine = 1,
                        endLine = 1, codebasePath = ''/a'',
                        timestamp = ''2024-01-01T00:00:00.000Z'' \<rparr> \<rparr>,
          \<lparr> point_id = ''lib.py:1:print(2)'', point_vector = Some [1],
            payload = \<lparr> filePath = ''lib.py'', codeChunk = ''print(2)'', startLine = 1,
                        endLine = 1, codebasePath = ''/b'',
                        timestamp = ''2024-01-01T00:00:00.000Z'' \<rparr> \<rparr>] \<rparr>"
  by (simp add: indexed_ab_def initial_system_def indexCodebase_begin_def Let_def
      indexCodebase_settle_def indexCodebase_try_def codeFilesOf_example_a codeFilesOf_example_b
      indexCodebase_batches.simps batchSize_def indexFile_cases INDEXING_CONFIG_def
      windows_short path_relative_def createEmbeddings_def client_upsert_def qdrant_upsert_def chunkPoint_def
      generateChunkId_def chunkIdInput_def string_of_nat.simps digit_char_def
      initializeQdrant_def initializeOpenAI_def loadConfig_def example_env_fields
      example_config_def initial_server_def collectionName_def)

lemma search_example_a:
  "fst (searchCodebase example_env indexed_ab ''log'' (Some ''/a'') 10) =
     Inr [\<lparr> res_score = 9 / 10, res_filePath = ''main.js'', res_codeChunk = ''console.log(1)'',
            res_startLine = 1, res_endLine = 1, res_codebasePath = ''/a'' \<rparr>]"
  by (simp add: searchCodebase_def indexed_ab_value initializeQdrant_def initializeOpenAI_def
      loadConfig_def createEmbeddings_def example_env_fields example_config_def
      qdrant_search_def score_point_def matches_def score_threshold_default_def Let_def)

lemma search_example_unscoped:
  "fst (searchCodebase example_env indexed_ab ''log'' (Some []) 10) =
     Inr [\<lparr> res_score = 9 / 10, res_filePath = ''main.js'', res_codeChunk = ''console.log(1)'',
            res_startLine = 1, res_endLine = 1, res_codebasePath = ''/a'' \<rparr>,
          \<lparr> res_score = 9 / 10, res_filePath = ''lib.py'', res_codeChunk = ''print(2)'',
            res_startLine = 1, res_endLine = 1, res_codebasePath = ''/b'' \<rparr>]"
  by (simp add: searchCodebase_def indexed_ab_value initializeQdrant_def initializeOpenAI_def
      loadConfig_def createEmbeddings_def example_env_fields example_config_def
      qdrant_search_def score_point_def matches_def score_threshold_default_def Let_def)

lemma windows_long_file:
  "windows (replicate 1001 (CHR ''a'')) 1000 200 =
     [replicate 1000 (CHR ''a''), replicate 201 (CHR ''a'')]"
  by (simp add: windows_def chunk_count_def upt_conv_Cons)

lemma picky_env_fields:
  "embed (picky_env k) = (\<lambda>t. if length t = k then Inl (Error ''rate limit'') else Inr [1])"
  "upsert_fault (picky_env k) = (\<lambda>p. None)"
  by (simp_all add: picky_env_def example_env_def)

lemma search_down_env_fields:
  "config_file search_down_env = Some example_config"
  "embed search_down_env = (\<lambda>t. Inr [1])"
  "search_fault search_down_env = Some (Error ''Service Unavailable'')"
  "fs search_down_env = example_fs"
  by (simp_all add: search_down_env_def example_env_def)

lemma search_down_fails:
  "fst (searchCodebase search_down_env indexed_ab ''q'' (Some ''/a'') 5)
     = Inl (Error ''Service Unavailable'')"
  by (simp add: searchCodebase_def indexed_ab_value initializeQdrant_def initializeOpenAI_def
      loadConfig_def createEmbeddings_def search_down_env_fields example_config_def
      qdrant_search_def Let_def)

lemma indexed_a_value:
  "snd (run initial_system [IndexCall (Some ''/a''), IndexSettle example_env]) =
     \<lparr> srv = \<lparr> qdrantClient = True, openaiClient = True, isIndexing = False,
               indexedCodebases = {''/a''},
               collection =
                 [\<lparr> point_id = ''main.js:1:console.log(1)'', point_vector = Some [1],
                    payload = \<lparr> filePath = ''main.js'', codeChunk = ''console.log(1)'',
                                startLine = 1, endLine = 1, codebasePath = ''/a'',
                                timestamp = ''2024-01-01T00:00:00.000Z'' \<rparr> \<rparr>] \<rparr>,
       inflight = None \<rparr>"
  by (simp add: initial_system_def indexCodebase_begin_def Let_def
      indexCodebase_settle_def indexCodebase_try_def codeFilesOf_example_a
      indexCodebase_batches.simps batchSize_def indexFile_cases INDEXING_CONFIG_def
      windows_short path_relative_def createEmbeddings_def client_upsert_def qdrant_upsert_def
      chunkPoint_def generateChunkId_def chunkIdInput_def string_of_nat.simps digit_char_def
      initializeQdrant_def initializeOpenAI_def loadConfig_def example_env_fields
      example_config_def initial_server_def collectionName_def)




lemma colliding_env_fields:
  "config_file (colliding_env h) = Some example_config"
  "fs (colliding_env h) = colliding_fs"
  "now (colliding_env h) = ''2024-01-01T00:00:00.000Z''"
  "md5_hex (colliding_env h) = h"
  "embed (colliding_env h) = (\<lambda>t. Inr [1])"
  "getCollections (colliding_env h) = Inr []"
  "createCollection (colliding_env h) = None"
  "upsert_fault (colliding_env h) = (\<lambda>p. None)"
  by (simp_all add: colliding_env_def example_env_def)

lemma codeFilesOf_colliding:
  "codeFilesOf (colliding_env h) ''/e'' =
     [(''/e/a.js'', File 8 (Some ''b.js:1:x'')), (''/e/a.js:1:b.js'', File 1 (Some ''x''))]"
  by (simp add: codeFilesOf_def colliding_env_fields colliding_fs_def startsWith_def path_join_def
      extname_def basename_def CODE_EXTENSIONS_def Let_def)

lemma indexCodebase_colliding:
  "indexCodebase (colliding_env h) initial_server (Some ''/e'') =
     Some (Inr \<lparr> totalChunks = 2, processedFiles = 2 \<rparr>,
           \<lparr> qdrantClient = True, openaiClient = True, isIndexing = False,
             indexedCodebases = {''/e''},
             collection =
               [\<lparr> point_id = h ''a.js:1:b.js:1:x'', point_vector = Some [1],
                  payload = \<lparr> filePath = ''a.js:1:b.js'', codeChunk = ''x'', startLine = 1,
                              endLine = 1, codebasePath = ''/e'',
                              timestamp = ''2024-01-01T00:00:00.000Z'' \<rparr> \<rparr>] \<rparr>)"
  by (simp add: indexCodebase_def indexCodebase_begin_def Let_def
      indexCodebase_settle_def indexCodebase_try_def codeFilesOf_colliding
      indexCodebase_batches.simps batchSize_def indexFile_cases INDEXING_CONFIG_def
      windows_short path_relative_def createEmbeddings_def client_upsert_def qdrant_upsert_def
      chunkPoint_def generateChunkId_def chunkIdInput_def string_of_nat.simps digit_char_def
      initializeQdrant_def initializeOpenAI_def loadConfig_def colliding_env_fields
      example_config_def initial_server_def collectionName_def)

section \<open>Claims about the chunker\<close>

text \<open>
  C1. For every text and every configuration with \<open>0 \<le> overlapSize < windowSize\<close>,
  \<open>splitIntoChunks\<close> returns, and the number of chunks is
  \<open>ceil((len - overlapSize) / (windowSize - overlapSize))\<close> when the text is longer than
  the window, 1 when the text is non-empty and fits the window, and 0 for the empty text.
  Chunk \<open>k\<close> is the slice that starts at \<open>k * (windowSize - overlapSize)\<close> (offset 0 first,
  then each start is the previous end minus the overlap) and ends \<open>windowSize\<close> characters
  later, clamped to the length of the text.
\<close>

theorem splitIntoChunks_count:
  assumes "0 \<le> ov" and "ov < w"
  shows "\<exists>chunks. splitIntoChunks text w ov = Some chunks \<and>
           length chunks =
             (if text = [] then 0
              else if int (length text) \<le> w then 1
              else nat \<lceil>(of_int (int (length text) - ov) :: real) / of_int (w - ov)\<rceil>) \<and>
           (\<forall>k < length chunks.
              chunks ! k = js_slice text (int k * (w - ov))
                             (min (int k * (w - ov) + w) (int (length text))))"
proof -
  have "splitIntoChunks text w ov = Some (windows text w ov)"
    using assms by (rule splitIntoChunks_windows)
  moreover have "length (windows text w ov) =
      (if text = [] then 0
       else if int (length text) \<le> w then 1
       else nat \<lceil>(of_int (int (length text) - ov) :: real) / of_int (w - ov)\<rceil>)"
    by (simp add: windows_def chunk_count_def)
  moreover have "\<forall>k < length (windows text w ov).
      windows text w ov ! k = js_slice text (int k * (w - ov))
                                (min (int k * (w - ov) + w) (int (length text)))"
    using assms by (simp add: windows_nth)
  ultimately show ?thesis by blast
qed

theorem splitIntoChunks_count_witness:
  "(0::int) \<le> 200 \<and> (200::int) < 1000 \<and>
   (\<exists>chunks. splitIntoChunks (replicate 2500 (CHR ''a'')) 1000 200 = Some chunks \<and>
              length chunks = 3)"
proof -
  have h1: "(0::int) \<le> 200" and h2: "(200::int) < 1000" by simp_all
  from splitIntoChunks_count [OF h1 h2, of "replicate 2500 (CHR ''a'')"]
  show ?thesis by auto
qed

text \<open>
  C8 (as the code has it). The chunking loop returns whenever
  \<open>overlapSize < windowSize\<close>. The code has no configuration validation: its only
  configuration is the constant \<open>INDEXING_CONFIG\<close>, whose overlap is smaller than its
  window. Called with \<open>overlapSize \<ge> windowSize\<close>, \<open>splitIntoChunks\<close> is not rejected: it
  returns the empty list for the empty text and the text as its one chunk when the text is
  no longer than the window; on a longer text the start offset never advances, the loop
  pushes a chunk in every iteration until the array is full, and the call ends with the
  \<open>RangeError\<close> of the array. The chunker with the bound on arrays returns exactly the
  chunks of the chunker without it that fit the bound.
\<close>

theorem splitIntoChunks_degenerate:
  assumes "0 < limit"
  shows "(if ov < w then (\<exists>chunks. splitIntoChunks text w ov = Some chunks)
          else splitIntoChunks_limited limit text w ov =
                 (if text = [] then Inr []
                  else if int (length text) \<le> w then Inr [text]
                  else Inl (Error ''Invalid array length''))) \<and>
         (splitIntoChunks_limited limit text w ov = Inr r \<longleftrightarrow>
            splitIntoChunks text w ov = Some r \<and> length r \<le> limit) \<and>
         overlapSize INDEXING_CONFIG < maxChunkSize INDEXING_CONFIG"
proof -
  have "\<exists>chunks. splitIntoChunks text w ov = Some chunks" if "ov < w"
    using loop_returns [OF that, of "text" 0 "[]"] by (simp add: splitIntoChunks_def)
  moreover have "splitIntoChunks_limited limit text w ov =
                 (if text = [] then Inr []
                  else if int (length text) \<le> w then Inr [text]
                  else Inl (Error ''Invalid array length''))" if "\<not> ov < w"
  proof (cases "text = []")
    case True
    then show ?thesis
      by (simp add: splitIntoChunks_limited_def splitIntoChunks_limited_loop.simps)
  next
    case False
    show ?thesis
    proof (cases "int (length text) \<le> w")
      case True
      with False assms show ?thesis by (simp add: limited_short)
    next
      case long: False
      from that long False
      have "splitIntoChunks_limited_loop limit text w ov 0 [] = Inl (Error ''Invalid array length'')"
        by (intro limited_loop_degenerate) simp_all
      with False long show ?thesis by (simp add: splitIntoChunks_limited_def)
    qed
  qed
  ultimately show ?thesis by (simp add: INDEXING_CONFIG_def splitIntoChunks_limited_iff)
qed

theorem splitIntoChunks_degenerate_witness:
  "(0::nat) < 4294967295 \<and>
   (\<exists>chunks. splitIntoChunks ''abcdefghij'' 4 1 = Some chunks) \<and>
   splitIntoChunks_limited 4294967295 ''abcdefghij'' 4 4 = Inl (Error ''Invalid array length'') \<and>
   splitIntoChunks_limited 4294967295 ''abc'' 4 4 = Inr [''abc'']"
proof -
  have h: "(0::nat) < 4294967295" by simp
  from splitIntoChunks_degenerate [OF h, of 1 4 "''abcdefghij''"]
       splitIntoChunks_degenerate [OF h, of 4 4 "''abcdefghij''"]
       splitIntoChunks_degenerate [OF h, of 4 4 "''abc''"]
  show ?thesis by simp
qed

text \<open>
  Window 3 and overlap 3 is a degenerate configuration that nothing rejects: the text
  \<open>abc\<close> is chunked as usual, and on \<open>abcd\<close> the loop runs until the array is full (here
  with the largest array length of the language).
\<close>

theorem splitIntoChunks_not_rejected_counterexample:
  "\<not> ((3::int) < 3) \<and> splitIntoChunks ''abc'' 3 3 = Some [''abc''] \<and>
   splitIntoChunks_limited 4294967295 ''abc'' 3 3 = Inr [''abc''] \<and>
   splitIntoChunks_limited 4294967295 ''abcd'' 3 3 = Inl (Error ''Invalid array length'')"
proof -
  have "splitIntoChunks_limited_loop 4294967295 ''abcd'' 3 3 0 [] = Inl (Error ''Invalid array length'')"
    by (rule limited_loop_degenerate) simp_all
  then have "splitIntoChunks_limited 4294967295 ''abcd'' 3 3 = Inl (Error ''Invalid array length'')"
    by (simp add: splitIntoChunks_limited_def)
  moreover have "splitIntoChunks ''abc'' 3 3 = Some [''abc'']"
    by (rule unlimited_short) simp_all
  moreover have "splitIntoChunks_limited 4294967295 ''abc'' 3 3 = Inr [''abc'']"
    by (rule limited_short) simp_all
  ultimately show ?thesis by simp
qed

section \<open>Claims about the busy flag and the indexed set\<close>

text \<open>
  C2. In every state the server can reach, the busy flag is set exactly while an
  \<open>indexCodebase\<close> call is in flight. While one is in flight, a further \<open>indexCodebase\<close>
  call, for any root, fails with the already-indexing error and changes nothing. When the
  call in flight settles, in any environment and so whether it returns or throws, the
  flag is cleared, and a following call for a non-empty root is accepted.
\<close>

theorem single_flight:
  assumes "sys = snd (run initial_system evs)"
  shows "(isIndexing (srv sys) \<longleftrightarrow> inflight sys \<noteq> None) \<and>
         (inflight sys \<noteq> None \<longrightarrow>
            step sys (IndexCall path) =
              (IndexRejected (Error ''Indexing already in progress''), sys) \<and>
            (\<exists>rp r. inflight sys = Some rp \<and>
                    fst (step sys (IndexSettle e)) = IndexSettled rp r) \<and>
            \<not> isIndexing (srv (snd (step sys (IndexSettle e)))) \<and>
            inflight (snd (step sys (IndexSettle e))) = None \<and>
            (p \<noteq> [] \<longrightarrow>
               fst (step (snd (step sys (IndexSettle e))) (IndexCall (Some p))) = IndexStarted p))"
proof -
  have "isIndexing (srv initial_system) \<longleftrightarrow> inflight initial_system \<noteq> None"
    by (simp add: initial_system_def initial_server_def)
  from run_invariant [OF this, of evs] assms
  have inv: "isIndexing (srv sys) \<longleftrightarrow> inflight sys \<noteq> None" by simp
  moreover have "step sys (IndexCall path) =
              (IndexRejected (Error ''Indexing already in progress''), sys) \<and>
            (\<exists>rp r. inflight sys = Some rp \<and>
                    fst (step sys (IndexSettle e)) = IndexSettled rp r) \<and>
            \<not> isIndexing (srv (snd (step sys (IndexSettle e)))) \<and>
            inflight (snd (step sys (IndexSettle e))) = None \<and>
            (p \<noteq> [] \<longrightarrow>
               fst (step (snd (step sys (IndexSettle e))) (IndexCall (Some p))) = IndexStarted p)"
    if fl: "inflight sys \<noteq> None"
  proof -
    from fl obtain rp where rp: "inflight sys = Some rp" by blast
    from fl inv have busy: "isIndexing (srv sys)" by simp
    from step_IndexSettle [OF rp, of e] obtain r s1 where
      st: "step sys (IndexSettle e) = (IndexSettled rp r, sys\<lparr>srv := s1, inflight := None\<rparr>)"
      and idle: "\<not> isIndexing s1" by blast
    have acc: "fst (step (sys\<lparr>srv := s1, inflight := None\<rparr>) (IndexCall (Some p))) = IndexStarted p"
      if "p \<noteq> []"
      using step_IndexCall_idle [of "sys\<lparr>srv := s1, inflight := None\<rparr>" p] idle that by simp
    from step_IndexCall_busy [OF busy, of path] rp st idle acc show ?thesis by simp
  qed
  ultimately show ?thesis by blast
qed

theorem single_flight_witness:
  "inflight (snd (run initial_system [IndexCall (Some ''/a'')])) = Some ''/a'' \<and>
   fst (step (snd (run initial_system [IndexCall (Some ''/a'')])) (IndexCall (Some ''/b'')))
     = IndexRejected (Error ''Indexing already in progress'') \<and>
   fst (step (snd (run initial_system [IndexCall (Some ''/a'')]))
          (IndexSettle unreachable_store_env))
     = IndexSettled ''/a'' (Inl (Error ''connect ECONNREFUSED'')) \<and>
   fst (step (snd (step (snd (run initial_system [IndexCall (Some ''/a'')]))
                     (IndexSettle unreachable_store_env)))
          (IndexCall (Some ''/b'')))
     = IndexStarted ''/b''"
proof -
  define sys where "sys = snd (run initial_system [IndexCall (Some ''/a'')])"
  have sys: "sys = \<lparr> srv = initial_server\<lparr>isIndexing := True\<rparr>, inflight = Some ''/a'' \<rparr>"
    by (simp add: sys_def initial_system_def indexCodebase_begin_def initial_server_def Let_def)
  have fl: "inflight sys = Some ''/a''" by (simp add: sys)
  have settled: "fst (step sys (IndexSettle unreachable_store_env))
                   = IndexSettled ''/a'' (Inl (Error ''connect ECONNREFUSED''))"
    by (simp add: sys indexCodebase_settle_unreachable)
  from single_flight [OF sys_def, of "Some ''/b''" unreachable_store_env "''/b''"] fl settled
  have "inflight sys = Some ''/a'' \<and>
        fst (step sys (IndexCall (Some ''/b'')))
          = IndexRejected (Error ''Indexing already in progress'') \<and>
        fst (step sys (IndexSettle unreachable_store_env))
          = IndexSettled ''/a'' (Inl (Error ''connect ECONNREFUSED'')) \<and>
        fst (step (snd (step sys (IndexSettle unreachable_store_env))) (IndexCall (Some ''/b'')))
          = IndexStarted ''/b''"
    by simp
  then show ?thesis unfolding sys_def .
qed

text \<open>
  C7. A root is in the indexed set exactly when, since the start of the process, an
  \<open>indexCodebase\<close> run for it has completed successfully and no clear-index request for
  it has succeeded since: the log of the server has a successful settlement of a run for
  the root with no successful clearing of the root after it. The root is added when its
  run settles with a result, which it does exactly when the vector store could be
  initialised; a run that throws leaves the set as it is. A clear-index request for a
  root succeeds exactly when the store can be reached and its delete does not fail; it
  then deletes from the collection the points whose \<open>codebasePath\<close> is the root and removes
  the root from the set, and a failing request leaves both the collection and the set as
  they are.
\<close>

theorem indexed_set_lifecycle:
  "(r \<in> indexedCodebases (srv (snd (run initial_system evs))) \<longleftrightarrow>
     (\<exists>pre post res.
        fst (run initial_system evs) = pre @ IndexSettled r (Inr res) # post \<and>
        (\<forall>msg. ClearDone (Some r) (Inr msg) \<notin> set post))) \<and>
   (inflight sys = Some rp \<longrightarrow>
      (case fst (initializeQdrant e (srv sys)) of
         Inr u \<Rightarrow> (\<exists>res. fst (step sys (IndexSettle e)) = IndexSettled rp (Inr res)) \<and>
                  indexedCodebases (srv (snd (step sys (IndexSettle e)))) =
                    insert rp (indexedCodebases (srv sys))
       | Inl err \<Rightarrow> fst (step sys (IndexSettle e)) = IndexSettled rp (Inl err) \<and>
                    indexedCodebases (srv (snd (step sys (IndexSettle e)))) =
                      indexedCodebases (srv sys))) \<and>
   (decodeURIComponent e' param = Some p \<longrightarrow>
      (if (qdrantClient (srv sys') \<or> fst (initializeQdrant e' (srv sys')) = Inr ()) \<and>
          delete_fault e' = None
       then fst (step sys' (ClearCall param e')) =
              ClearDone (Some p) (Inr (''Index cleared for: '' @ p)) \<and>
            indexedCodebases (srv (snd (step sys' (ClearCall param e')))) =
              indexedCodebases (srv sys') - {p} \<and>
            collection (srv (snd (step sys' (ClearCall param e')))) =
              filter (\<lambda>pt. codebasePath (payload pt) \<noteq> p) (collection (srv sys'))
       else (\<exists>err. fst (step sys' (ClearCall param e')) = ClearDone (Some p) (Inl err)) \<and>
            indexedCodebases (srv (snd (step sys' (ClearCall param e')))) =
              indexedCodebases (srv sys') \<and>
            collection (srv (snd (step sys' (ClearCall param e')))) = collection (srv sys')))"
proof -
  have "indexedCodebases (srv initial_system) = {}"
    by (simp add: initial_system_def initial_server_def)
  with run_indexed [of initial_system evs]
  have "indexedCodebases (srv (snd (run initial_system evs))) =
          indexed_after {} (fst (run initial_system evs))" by simp
  then have "r \<in> indexedCodebases (srv (snd (run initial_system evs))) \<longleftrightarrow>
     (\<exists>pre post res.
        fst (run initial_system evs) = pre @ IndexSettled r (Inr res) # post \<and>
        (\<forall>msg. ClearDone (Some r) (Inr msg) \<notin> set post))"
    by (simp add: indexed_after_iff)
  with step_IndexSettle_effect [of sys rp e] step_ClearCall_effect [of e' param p sys']
  show ?thesis by blast
qed

theorem indexed_set_lifecycle_witness:
  "inflight (snd (run initial_system [IndexCall (Some ''/a'')])) = Some ''/a'' \<and>
   ''/a'' \<notin> indexedCodebases (srv (snd (run initial_system [IndexCall (Some ''/a'')]))) \<and>
   ''/a'' \<in> indexedCodebases (srv (snd (step (snd (run initial_system [IndexCall (Some ''/a'')]))
                                            (IndexSettle example_env)))) \<and>
   decodeURIComponent example_env ''/a'' = Some ''/a'' \<and>
   ''/a'' \<in> indexedCodebases
              (srv (snd (run initial_system [IndexCall (Some ''/a''), IndexSettle example_env]))) \<and>
   collection (srv (snd (run initial_system [IndexCall (Some ''/a''), IndexSettle example_env]))) \<noteq> [] \<and>
   fst (step (snd (run initial_system [IndexCall (Some ''/a''), IndexSettle example_env]))
          (ClearCall ''/a'' example_env))
     = ClearDone (Some ''/a'') (Inr ''Index cleared for: /a'') \<and>
   ''/a'' \<notin> indexedCodebases
              (srv (snd (step (snd (run initial_system
                                      [IndexCall (Some ''/a''), IndexSettle example_env]))
                          (ClearCall ''/a'' example_env)))) \<and>
   collection (srv (snd (step (snd (run initial_system
                                      [IndexCall (Some ''/a''), IndexSettle example_env]))
                          (ClearCall ''/a'' example_env)))) = [] \<and>
   ''/a'' \<notin> indexedCodebases
              (srv (snd (run initial_system
                           [IndexCall (Some ''/a''), IndexSettle example_env,
                            ClearCall ''/a'' example_env])))"
proof -
  define sys1 where "sys1 = snd (run initial_system [IndexCall (Some ''/a'')])"
  define sys2 where "sys2 = snd (run initial_system [IndexCall (Some ''/a''), IndexSettle example_env])"
  define evs3 where "evs3 = [IndexCall (Some ''/a''), IndexSettle example_env, ClearCall ''/a'' example_env]"
  have s1: "sys1 = \<lparr> srv = initial_server\<lparr>isIndexing := True\<rparr>, inflight = Some ''/a'' \<rparr>"
    by (simp add: sys1_def initial_system_def indexCodebase_begin_def initial_server_def Let_def)
  have s2: "sys2 = \<lparr> srv = \<lparr> qdrantClient = True, openaiClient = True, isIndexing = False,
               indexedCodebases = {''/a''},
               collection =
                 [\<lparr> point_id = ''main.js:1:console.log(1)'', point_vector = Some [1],
                    payload = \<lparr> filePath = ''main.js'', codeChunk = ''console.log(1)'',
                                startLine = 1, endLine = 1, codebasePath = ''/a'',
                                timestamp = ''2024-01-01T00:00:00.000Z'' \<rparr> \<rparr>] \<rparr>,
       inflight = None \<rparr>"
    unfolding sys2_def by (rule indexed_a_value)
  have run3: "snd (run initial_system evs3) = snd (step sys2 (ClearCall ''/a'' example_env))"
    and log3: "fst (run initial_system evs3) =
       fst (run initial_system [IndexCall (Some ''/a''), IndexSettle example_env])
         @ [fst (step sys2 (ClearCall ''/a'' example_env))]"
    unfolding evs3_def sys2_def by (simp_all split: prod.splits)
  have h1: "inflight sys1 = Some ''/a''" by (simp add: s1)
  have q1: "fst (initializeQdrant example_env (srv sys1)) = Inr ()"
    by (simp add: s1 initializeQdrant_def initial_server_def example_env_fields)
  have h2: "decodeURIComponent example_env ''/a'' = Some ''/a''" by (simp add: example_env_fields)
  have q2: "qdrantClient (srv sys2)" "delete_fault example_env = None"
    by (simp_all add: s2 example_env_fields)
  note T = indexed_set_lifecycle [of "''/a''" evs3 sys1 "''/a''" example_env example_env
      "''/a''" "''/a''" sys2]
  from T h1 q1 have settle:
    "indexedCodebases (srv (snd (step sys1 (IndexSettle example_env)))) =
       insert ''/a'' (indexedCodebases (srv sys1))" by simp
  from T h2 q2 have clear:
    "fst (step sys2 (ClearCall ''/a'' example_env)) = ClearDone (Some ''/a'') (Inr ''Index cleared for: /a'')"
    "indexedCodebases (srv (snd (step sys2 (ClearCall ''/a'' example_env)))) =
       indexedCodebases (srv sys2) - {''/a''}"
    "collection (srv (snd (step sys2 (ClearCall ''/a'' example_env)))) =
       filter (\<lambda>pt. codebasePath (payload pt) \<noteq> ''/a'') (collection (srv sys2))"
    by simp_all
  have "inflight sys1 = Some ''/a'' \<and>
        ''/a'' \<notin> indexedCodebases (srv sys1) \<and>
        ''/a'' \<in> indexedCodebases (srv (snd (step sys1 (IndexSettle example_env)))) \<and>
        decodeURIComponent example_env ''/a'' = Some ''/a'' \<and>
        ''/a'' \<in> indexedCodebases (srv sys2) \<and>
        collection (srv sys2) \<noteq> [] \<and>
        fst (step sys2 (ClearCall ''/a'' example_env))
          = ClearDone (Some ''/a'') (Inr ''Index cleared for: /a'') \<and>
        ''/a'' \<notin> indexedCodebases (srv (snd (step sys2 (ClearCall ''/a'' example_env)))) \<and>
        collection (srv (snd (step sys2 (ClearCall ''/a'' example_env)))) = [] \<and>
        ''/a'' \<notin> indexedCodebases (srv (snd (run initial_system evs3)))"
    using h1 h2 settle clear run3
    by (simp add: s1 s2 initial_server_def)
  then show ?thesis unfolding sys1_def sys2_def evs3_def .
qed

section \<open>Claims about the retriever\<close>

text \<open>
  C3 (as the code has it). After indexing into the shared collection, a search scoped to a
  non-empty root returns only results whose \<open>codebasePath\<close> is that root, and the points
  that an indexing run for a root adds to the collection carry that root:
  \<open>searchCodebase\<close> with a non-empty \<open>codebasePath\<close> builds an equality filter on the
  payload field \<open>codebasePath\<close>, and with a \<open>null\<close> or empty \<open>codebasePath\<close> it omits the
  filter and searches across all indexed codebases.
\<close>

theorem search_scoping:
  assumes "p \<noteq> []"
  shows "searchFilter (Some p) = Some [(''codebasePath'', p)] \<and>
         searchFilter None = None \<and> searchFilter (Some []) = None \<and>
         (\<forall>results s'. searchCodebase e s q (Some p) limit = (Inr results, s') \<longrightarrow>
            (\<forall>r \<in> set results. res_codebasePath r = p)) \<and>
         (\<forall>out s1. indexCodebase_settle e' p s0 = Some (out, s1) \<longrightarrow> adds_only_root p s0 s1)"
  using assms searchCodebase_scoped [of e s q p limit] indexCodebase_settle_points [of e' p s0]
  by auto

theorem search_scoping_witness:
  "''/a'' \<noteq> [] \<and>
   fst (searchCodebase example_env indexed_ab ''log'' (Some ''/a'') 10) =
     Inr [\<lparr> res_score = 9 / 10, res_filePath = ''main.js'', res_codeChunk = ''console.log(1)'',
            res_startLine = 1, res_endLine = 1, res_codebasePath = ''/a'' \<rparr>] \<and>
   (\<exists>results s'. searchCodebase example_env indexed_ab ''log'' (Some ''/a'') 10 = (Inr results, s') \<and>
      list_all (\<lambda>r. res_codebasePath r = ''/a'') results \<and> results \<noteq> [])"
proof -
  have h: "''/a'' \<noteq> []" by simp
  obtain out s' where o: "searchCodebase example_env indexed_ab ''log'' (Some ''/a'') 10 = (out, s')"
    by (cases "searchCodebase example_env indexed_ab ''log'' (Some ''/a'') 10")
  with search_example_a have out: "out =
     Inr [\<lparr> res_score = 9 / 10, res_filePath = ''main.js'', res_codeChunk = ''console.log(1)'',
            res_startLine = 1, res_endLine = 1, res_codebasePath = ''/a'' \<rparr>]" by simp
  from search_scoping [OF h, of example_env indexed_ab "''log''" 10] o out
  show ?thesis using search_example_a by (simp add: list_all_iff)
qed

text \<open>
  The empty string is a \<open>codebasePath\<close> that is not \<open>null\<close>, and no filter is built for it:
  the search returns the chunks of both roots.
\<close>

theorem search_empty_scope_counterexample:
  "searchFilter (Some []) = None \<and>
   fst (searchCodebase example_env indexed_ab ''log'' (Some []) 10) =
     Inr [\<lparr> res_score = 9 / 10, res_filePath = ''main.js'', res_codeChunk = ''console.log(1)'',
            res_startLine = 1, res_endLine = 1, res_codebasePath = ''/a'' \<rparr>,
          \<lparr> res_score = 9 / 10, res_filePath = ''lib.py'', res_codeChunk = ''print(2)'',
            res_startLine = 1, res_endLine = 1, res_codebasePath = ''/b'' \<rparr>]"
  using search_example_unscoped by simp

section \<open>Claims about the context assembler\<close>

text \<open>
  C5 (what the code does). For a non-empty root whose directory cannot be read (absent,
  not a directory, or unreadable), \<open>getCodebaseContext\<close> returns the heading of the
  directory section with nothing under it, not the empty string: the heading is pushed
  without the test that guards the two other sections.
\<close>

theorem getCodebaseContext_unreadable_root:
  assumes "p \<noteq> []" and "readdir (fs e p) = None"
  shows "getCodebaseContext e (Some p) = ''## Directory Structure:'' @ nl @ nl \<and>
         getCodebaseContext e (Some p) \<noteq> []"
  using assms
  by (simp add: getCodebaseContext_def getCodeFiles_def unreadable_root_parts Let_def)

theorem getCodebaseContext_unreadable_root_witness:
  "''/nonexistent'' \<noteq> [] \<and> readdir (fs example_env ''/nonexistent'') = None \<and>
   getCodebaseContext example_env (Some ''/nonexistent'') = ''## Directory Structure:'' @ nl @ nl \<and>
   getCodebaseContext example_env (Some ''/nonexistent'') \<noteq> []"
proof -
  have h1: "''/nonexistent'' \<noteq> []" by simp
  have h2: "readdir (fs example_env ''/nonexistent'') = None"
    by (simp add: example_env_fields example_fs_def)
  from getCodebaseContext_unreadable_root [OF h1 h2] h2 show ?thesis by simp
qed

section \<open>Claims about the chunk identifier\<close>

text \<open>
  C6 (what the code does). \<open>generateChunkId\<close> joins the relative path, the start line and
  the chunk text by a plain \<open>:\<close>, with no escaping, so a \<open>:\<close> in a path moves the
  boundaries: the first chunk \<open>b.js:1:x\<close> of the file \<open>a.js\<close> and the first chunk \<open>x\<close> of
  the file \<open>a.js:1:b.js\<close> are two triples with the same string to hash and, whatever the
  hash, the same identifier. Indexing a codebase with these two files counts two chunks and
  leaves one point in the collection: the second upsert replaces the first.
\<close>

theorem generateChunkId_collision:
  "(''a.js'', 1::nat, ''b.js:1:x'') \<noteq> (''a.js:1:b.js'', 1, ''x'') \<and>
   chunkIdInput ''a.js'' 1 ''b.js:1:x'' = chunkIdInput ''a.js:1:b.js'' 1 ''x'' \<and>
   generateChunkId h ''a.js'' 1 ''b.js:1:x'' = generateChunkId h ''a.js:1:b.js'' 1 ''x'' \<and>
   indexCodebase (colliding_env h) initial_server (Some ''/e'') =
     Some (Inr \<lparr> totalChunks = 2, processedFiles = 2 \<rparr>,
           \<lparr> qdrantClient = True, openaiClient = True, isIndexing = False,
             indexedCodebases = {''/e''},
             collection =
               [\<lparr> point_id = h ''a.js:1:b.js:1:x'', point_vector = Some [1],
                  payload = \<lparr> filePath = ''a.js:1:b.js'', codeChunk = ''x'', startLine = 1,
                              endLine = 1, codebasePath = ''/e'',
                              timestamp = ''2024-01-01T00:00:00.000Z'' \<rparr> \<rparr>] \<rparr>)"
  using indexCodebase_colliding [of h]
  by (simp add: generateChunkId_def chunkIdInput_def string_of_nat.simps digit_char_def)

section \<open>Claims about the retrieval orchestration\<close>



section \<open>Claims about the indexer\<close>

text \<open>
  C10. The \<open>processedFiles\<close> count that \<open>indexCodebase\<close> returns equals the number of
  allow-listed files enumerated under the root; a file that is skipped for its size, that
  cannot be read or whose indexing fails makes \<open>indexFile\<close> return the chunk count 0 like
  any other value, so the result does not show it.
\<close>

theorem processedFiles_counts_every_file:
  assumes "indexCodebase e s (Some rp) = Some (Inr res, s')"
  shows "processedFiles res = length (codeFilesOf e rp) \<and>
         (skipped_or_failed e s0 f rp \<longrightarrow> (\<exists>s1. indexFile e s0 f rp = Some (0, s1)))"
proof
  from assms obtain s1 where b: "indexCodebase_begin s (Some rp) = Inr s1"
    and r: "indexCodebase_settle e rp s1 = Some (Inr res, s')"
    by (auto simp: indexCodebase_def split: sum.splits)
  from indexCodebase_settle_cases [of e rp s1] r
  show "processedFiles res = length (codeFilesOf e rp)" by auto
next
  show "skipped_or_failed e s0 f rp \<longrightarrow> (\<exists>s1. indexFile e s0 f rp = Some (0, s1))"
    by (auto simp: skipped_or_failed_def indexFile_def split: option.splits sum.splits prod.splits)
qed

theorem processedFiles_counts_every_file_witness:
  "indexCodebase example_env initial_server (Some ''/c'') =
     Some (Inr \<lparr> totalChunks = 0, processedFiles = 2 \<rparr>,
           initial_server\<lparr>qdrantClient := True, openaiClient := True,
                            indexedCodebases := {''/c''}\<rparr>) \<and>
   skipped_or_failed example_env initial_server (''/c/big.js'', File 2000000 (Some ''x'')) ''/c'' \<and>
   length (codeFilesOf example_env ''/c'') = 2 \<and>
   (\<exists>s1. indexFile example_env initial_server (''/c/big.js'', File 2000000 (Some ''x'')) ''/c''
           = Some (0, s1))"
proof -
  have r: "indexCodebase example_env initial_server (Some ''/c'') =
     Some (Inr \<lparr> totalChunks = 0, processedFiles = 2 \<rparr>,
           initial_server\<lparr>qdrantClient := True, openaiClient := True,
                            indexedCodebases := {''/c''}\<rparr>)"
    using indexCodebase_settle_example_c
    by (simp add: indexCodebase_def indexCodebase_begin_def initial_server_def)
  have k: "skipped_or_failed example_env initial_server
             (''/c/big.js'', File 2000000 (Some ''x'')) ''/c''"
    by (simp add: skipped_or_failed_def INDEXING_CONFIG_def)
  from processedFiles_counts_every_file [OF r, of initial_server
      "(''/c/big.js'', File 2000000 (Some ''x''))"] k r
  show ?thesis by simp
qed

text \<open>
  C4 (as the code has it). During indexing of one file, a chunk's embedding or upsert
  failure is caught by the one \<open>try\<close>/\<open>catch\<close> of \<open>indexFile\<close>. It does not abort the
  indexing run, which goes on with the other files; it ends the processing of that file:
  the store is left as the chunks before the failing one made it, the failing chunk and
  the chunks after it are not upserted, and \<open>indexFile\<close> returns the count 0.
\<close>

theorem chunk_failure_ends_the_file:
  assumes "stat (snd f) = Some st" and "st_size st \<le> maxFileSize INDEXING_CONFIG"
    and "readFile (snd f) = Some content"
    and "splitIntoChunks content (maxChunkSize INDEXING_CONFIG) (overlapSize INDEXING_CONFIG)
           = Some (pre @ c # post)"
    and "indexFile_loop e (path_relative rp (fst f)) rp pre 0 0 s = (Inr k, s1)"
    and "chunk_fails e s1 (path_relative rp (fst f)) rp (length pre) c"
  shows "indexFile e s f rp = Some (0, s1) \<and>
         indexBatch e s (f # files) rp =
           (case indexBatch e s1 files rp of
              None \<Rightarrow> None
            | Some (results, s2) \<Rightarrow> Some (0 # results, s2))"
proof -
  from indexFile_loop_fails [OF assms(6), of post k] obtain err where
    "indexFile_loop e (path_relative rp (fst f)) rp (c # post) (length pre) k s1 = (Inl err, s1)"
    by blast
  with assms(5) have "indexFile_loop e (path_relative rp (fst f)) rp (pre @ c # post) 0 0 s
                        = (Inl err, s1)"
    by (simp add: indexFile_loop_append)
  with assms(1-4) have "indexFile e s f rp = Some (0, s1)"
    by (simp add: indexFile_def)
  then show ?thesis by simp
qed

theorem chunk_failure_ends_the_file_witness:
  "chunk_fails (picky_env 201)
     (initial_server\<lparr>qdrantClient := True, openaiClient := True,
        collection := [chunkPoint (picky_env 201) ''long.txt'' ''/d'' 0
                         (replicate 1000 (CHR ''a'')) [[1]]]\<rparr>)
     ''long.txt'' ''/d'' 1 (replicate 201 (CHR ''a'')) \<and>
   indexFile (picky_env 201) (initial_server\<lparr>qdrantClient := True, openaiClient := True\<rparr>) long_file ''/d'' =
     Some (0, initial_server\<lparr>qdrantClient := True, openaiClient := True,
                collection := [chunkPoint (picky_env 201) ''long.txt'' ''/d'' 0
                                 (replicate 1000 (CHR ''a'')) [[1]]]\<rparr>) \<and>
   indexBatch (picky_env 201) (initial_server\<lparr>qdrantClient := True, openaiClient := True\<rparr>) [long_file] ''/d'' =
     Some ([0], initial_server\<lparr>qdrantClient := True, openaiClient := True,
                  collection := [chunkPoint (picky_env 201) ''long.txt'' ''/d'' 0
                                   (replicate 1000 (CHR ''a'')) [[1]]]\<rparr>)"
proof -
  define s0 where "s0 = initial_server\<lparr>qdrantClient := True, openaiClient := True\<rparr>"
  define s1 where "s1 = initial_server\<lparr>qdrantClient := True, openaiClient := True,
        collection := [chunkPoint (picky_env 201) ''long.txt'' ''/d'' 0
                         (replicate 1000 (CHR ''a'')) [[1]]]\<rparr>"
  have rel: "path_relative ''/d'' (fst long_file) = ''long.txt''"
    by (simp add: path_relative_def long_file_def)
  have h1: "stat (snd long_file) = Some \<lparr> isDirectory = False, isFile = True, st_size = 1001 \<rparr>"
    by (simp add: long_file_def)
  have h2: "st_size \<lparr> isDirectory = False, isFile = True, st_size = 1001 \<rparr>
              \<le> maxFileSize INDEXING_CONFIG"
    by (simp add: INDEXING_CONFIG_def)
  have h3: "readFile (snd long_file) = Some (replicate 1001 (CHR ''a''))"
    by (simp add: long_file_def)
  have h4: "splitIntoChunks (replicate 1001 (CHR ''a'')) (maxChunkSize INDEXING_CONFIG)
              (overlapSize INDEXING_CONFIG)
            = Some ([replicate 1000 (CHR ''a'')] @ replicate 201 (CHR ''a'') # [])"
    by (simp add: splitIntoChunks_default windows_long_file)
  have h5: "indexFile_loop (picky_env 201) (path_relative ''/d'' (fst long_file)) ''/d''
              [replicate 1000 (CHR ''a'')] 0 0 s0 = (Inr 1, s1)"
    by (simp add: rel s0_def s1_def initial_server_def createEmbeddings_def picky_env_fields
        client_upsert_def qdrant_upsert_def point_vector_chunkPoint)
  have h6: "chunk_fails (picky_env 201) s1 (path_relative ''/d'' (fst long_file)) ''/d''
              (length [replicate 1000 (CHR ''a'')]) (replicate 201 (CHR ''a''))"
    by (simp add: rel s1_def chunk_fails_def createEmbeddings_def picky_env_fields)
  from chunk_failure_ends_the_file [OF h1 h2 h3 h4 h5 h6, of "[]"] h6
  show ?thesis by (simp add: rel s0_def s1_def)
qed

text \<open>
  The first of the two chunks of a file fails to embed; the second chunk, whose embedding
  and upsert would succeed, is not upserted, and nothing is counted.
\<close>

theorem chunk_failure_counterexample:
  "splitIntoChunks (replicate 1001 (CHR ''a'')) (maxChunkSize INDEXING_CONFIG)
      (overlapSize INDEXING_CONFIG)
     = Some [replicate 1000 (CHR ''a''), replicate 201 (CHR ''a'')] \<and>
   chunk_fails (picky_env 1000) (initial_server\<lparr>qdrantClient := True, openaiClient := True\<rparr>) ''long.txt'' ''/d'' 0
     (replicate 1000 (CHR ''a'')) \<and>
   \<not> chunk_fails (picky_env 1000) (initial_server\<lparr>qdrantClient := True, openaiClient := True\<rparr>) ''long.txt'' ''/d'' 1
     (replicate 201 (CHR ''a'')) \<and>
   indexFile (picky_env 1000) (initial_server\<lparr>qdrantClient := True, openaiClient := True\<rparr>) long_file ''/d'' =
     Some (0, initial_server\<lparr>qdrantClient := True, openaiClient := True\<rparr>)"
proof -
  have "splitIntoChunks (replicate 1001 (CHR ''a'')) (maxChunkSize INDEXING_CONFIG)
          (overlapSize INDEXING_CONFIG)
        = Some [replicate 1000 (CHR ''a''), replicate 201 (CHR ''a'')]"
    by (simp add: splitIntoChunks_default windows_long_file)
  then show ?thesis
    by (simp add: windows_long_file chunk_fails_def createEmbeddings_def
        picky_env_fields client_upsert_def qdrant_upsert_def point_vector_chunkPoint indexFile_cases long_file_def
        INDEXING_CONFIG_def path_relative_def initial_server_def)
qed

end
